theory Spec2Isabelle
  imports Complex_Main "HOL-Library.Log_Nat"
begin

section \<open>Constants of index.ts\<close>

definition MAX_RETRIES :: nat where
  "MAX_RETRIES = 3"

definition FETCH_TIMEOUT_MS :: nat where
  "FETCH_TIMEOUT_MS = 30000"

definition CONSECUTIVE_FAILURE_THRESHOLD :: int where
  "CONSECUTIVE_FAILURE_THRESHOLD = 5"

definition ORDERS_INTERVAL :: nat where
  "ORDERS_INTERVAL = 1000 * 60 * 10"

definition NON_RETRYABLE_STATUSES :: "nat set" where
  "NON_RETRYABLE_STATUSES = {400, 401, 403, 429}"

section \<open>JavaScript values\<close>

text \<open>
  A JavaScript number is a binary64 value: NaN, one of the two infinities, or a finite
  value \<open>m * 2 ^ q\<close> with \<open>\<bar>m\<bar> < 2 ^ 53\<close> and \<open>- 1074 \<le> q \<le> 971\<close>. A finite value
  is kept as the rational number it denotes (the two zeros are one value).
\<close>

datatype js_number = Finite rat | PosInfinity | NegInfinity | NaN

text \<open>The relational operator \<open>a > b\<close>: false as soon as an operand is NaN.\<close>

fun js_gt :: "js_number \<Rightarrow> js_number \<Rightarrow> bool" where
  "js_gt NaN b = False"
| "js_gt a NaN = False"
| "js_gt (Finite a) (Finite b) = (b < a)"
| "js_gt (Finite a) PosInfinity = False"
| "js_gt (Finite a) NegInfinity = True"
| "js_gt PosInfinity PosInfinity = False"
| "js_gt PosInfinity b = True"
| "js_gt NegInfinity b = False"

text \<open>
  Rounding a rational number to binary64, to nearest with ties to even, as every
  arithmetic operator of the language does with its exact result. \<open>floor_log2 a\<close> is
  the exponent \<open>e\<close> with \<open>2 ^ e \<le> a < 2 ^ (e + 1)\<close>, for \<open>a > 0\<close> (\<open>bitlen n\<close> is the
  number of binary digits of \<open>n\<close>). The spacing of binary64 values around \<open>a\<close> is
  \<open>2 ^ q\<close> with \<open>q = max e (- 1022) - 52\<close>: 53 significant bits, and the fixed
  spacing \<open>2 ^ (- 1074)\<close> of the subnormal range. The result is the multiple of \<open>2 ^ q\<close>
  nearest to \<open>a\<close>, and an infinity once that reaches \<open>2 ^ 1024\<close>.
\<close>

definition pow2 :: "int \<Rightarrow> rat" where
  "pow2 e = (if 0 \<le> e then 2 ^ nat e else 1 / 2 ^ nat (- e))"

definition floor_log2 :: "rat \<Rightarrow> int" where
  "floor_log2 a = (if 1 \<le> a then bitlen \<lfloor>a\<rfloor> - 1 else - bitlen (\<lceil>1 / a\<rceil> - 1))"

definition round_half_even :: "rat \<Rightarrow> int" where
  "round_half_even x =
     (let f = \<lfloor>x\<rfloor>; d = x - of_int f in
      if d < 1 / 2 then f else if 1 / 2 < d then f + 1 else if even f then f else f + 1)"

definition signed_infinity :: "rat \<Rightarrow> js_number" where
  "signed_infinity x = (if 0 < x then PosInfinity else NegInfinity)"

definition round_binary64 :: "rat \<Rightarrow> js_number" where
  "round_binary64 x =
     (if x = 0 then Finite 0
      else
        (let a = \<bar>x\<bar>; e = floor_log2 a in
         if 1024 \<le> e then signed_infinity x
         else
           (let q = max e (- 1022) - 52;
                m = round_half_even (a * pow2 (- q))
            in if q = 971 \<and> m = 2 ^ 53 then signed_infinity x
               else Finite (if 0 < x then of_int m * pow2 q else - (of_int m * pow2 q)))))"

text \<open>
  The operator \<open>a * b\<close>: NaN is contagious, infinity times zero is NaN, and the
  product of two finite values is their exact product rounded to binary64.
\<close>

fun js_sign :: "js_number \<Rightarrow> int" where
  "js_sign (Finite a) = (if a = 0 then 0 else if 0 < a then 1 else -1)"
| "js_sign PosInfinity = 1"
| "js_sign NegInfinity = -1"
| "js_sign NaN = 0"

fun js_times :: "js_number \<Rightarrow> js_number \<Rightarrow> js_number" where
  "js_times NaN b = NaN"
| "js_times a NaN = NaN"
| "js_times (Finite a) (Finite b) = round_binary64 (a * b)"
| "js_times a b =
     (if js_sign a * js_sign b = 0 then NaN
      else if 0 < js_sign a * js_sign b then PosInfinity else NegInfinity)"

text \<open>
  What \<open>response.json()\<close> resolves to: any JSON value. An object is the list of its
  own properties (one entry per key, as \<open>JSON.parse\<close> builds it).
\<close>

datatype json_value =
    JNull
  | JBool bool
  | JNumber js_number
  | JString string
  | JArray "json_value list"
  | JObject "(string \<times> json_value) list"

text \<open>Truthiness, as \<open>&&\<close> tests it.\<close>

fun truthy :: "json_value \<Rightarrow> bool" where
  "truthy JNull = False"
| "truthy (JBool b) = b"
| "truthy (JNumber n) = (n \<noteq> Finite 0 \<and> n \<noteq> NaN)"
| "truthy (JString s) = (s \<noteq> [])"
| "truthy (JArray xs) = True"
| "truthy (JObject kvs) = True"

text \<open>
  The property read \<open>data.nextCheckInSeconds\<close> on a truthy value: an object gives the
  property's value or \<open>undefined\<close> (None); a boolean, number, string or array has no
  property of that name.
\<close>

fun get_nextCheckInSeconds :: "json_value \<Rightarrow> json_value option" where
  "get_nextCheckInSeconds (JObject kvs) = map_of kvs ''nextCheckInSeconds''"
| "get_nextCheckInSeconds v = None"

section \<open>The outcome of one fetch\<close>

text \<open>
  \<open>fetch\<close> either rejects (a network error, or the 30 s \<open>AbortSignal.timeout\<close>) or
  resolves to a response. Of a response the code reads \<open>status\<close>, \<open>statusText\<close>,
  \<open>ok\<close> and \<open>json()\<close>; \<open>json()\<close> rejects (Inl, with the error's message) on an
  empty or malformed body and resolves to the parsed value (Inr) otherwise.
\<close>

record response =
  status :: nat
  statusText :: string
  json :: "string + json_value"

text \<open>The Fetch standard's \<open>ok\<close> getter: the status is in the range 200 to 299.\<close>

definition response_ok :: "response \<Rightarrow> bool" where
  "response_ok r = (200 \<le> status r \<and> status r \<le> 299)"

datatype fetch_outcome = Rejects string | Resolves response

text \<open>What the \<open>catch\<close> clause receives, with the parts its message is built from.\<close>

datatype thrown =
    FetchRejected string
  | HttpError nat string
  | JsonRejected string

section \<open>Effects\<close>

text \<open>
  Everything \<open>postWithRetry\<close> and its callers do to the outside, in order. A console
  line is kept as its template's name with the values interpolated into it.
  \<^item> \<open>Fetch url label\<close>: the POST to \<open>url\<close> with the bearer token, the body
    \<open>{ message: "Sync <label>" }\<close> and the timeout of \<open>FETCH_TIMEOUT_MS\<close>;
  \<^item> \<open>Sleep ms\<close>: \<open>await sleep(ms)\<close>;
  \<^item> \<open>Error_not_retryable label status statusText\<close>:
    \<open>[label] Sync failed: status statusText (not retryable)\<close>;
  \<^item> \<open>Error_failed_after label n message\<close>: \<open>[label] Sync failed after n attempts: message\<close>;
  \<^item> \<open>Error_warning label count\<close>:
    \<open>[label] WARNING: count consecutive failures\<close>, the escalated warning;
  \<^item> \<open>Error_retrying label attempt n seconds message\<close>:
    \<open>[label] Attempt attempt/n failed, retrying in seconds s: message\<close>;
  \<^item> \<open>Log_members_synced nextInterval\<close>: \<open>[members] Synced successfully (next check in ...)\<close>;
  \<^item> \<open>SetTimeout_syncMembers nextInterval\<close>: \<open>setTimeout(syncMembers, nextInterval)\<close>.
\<close>

datatype event =
    Fetch string string
  | Sleep nat
  | Error_not_retryable string nat string
  | Error_failed_after string nat thrown
  | Error_warning string int
  | Error_retrying string nat nat nat thrown
  | Log_members_synced js_number
  | SetTimeout_syncMembers js_number

text \<open>
  The state a call runs in: the \<open>count\<close> field of the \<open>consecutiveFailures\<close> object
  it is given, and the effects so far.
\<close>

record run_state =
  count :: int
  trace :: "event list"

definition emit :: "event \<Rightarrow> run_state \<Rightarrow> run_state" where
  "emit e st = st\<lparr>trace := trace st @ [e]\<rparr>"

record SyncResult =
  ok :: bool
  data :: "json_value option"

section \<open>postWithRetry\<close>

text \<open>The \<open>try\<close> block of one iteration: it returns from the function, or throws.\<close>

datatype try_completion = Returned SyncResult run_state | Threw thrown run_state

definition try_block :: "fetch_outcome \<Rightarrow> string \<Rightarrow> string \<Rightarrow> run_state \<Rightarrow> try_completion" where
  "try_block outcome url label st0 =
     (let st = emit (Fetch url label) st0 in
      case outcome of
        Rejects m \<Rightarrow> Threw (FetchRejected m) st
      | Resolves response \<Rightarrow>
          if \<not> response_ok response then
            if status response \<in> NON_RETRYABLE_STATUSES then
              Returned \<lparr>ok = False, data = None\<rparr>
                (emit (Error_not_retryable label (status response) (statusText response))
                   (st\<lparr>count := count st + 1\<rparr>))
            else Threw (HttpError (status response) (statusText response)) st
          else
            (let st1 = st\<lparr>count := 0\<rparr> in
             case json response of
               Inl m \<Rightarrow> Threw (JsonRejected m) st1
             | Inr d \<Rightarrow> Returned \<lparr>ok = True, data = Some d\<rparr> st1))"

text \<open>The \<open>catch\<close> block: it returns from the function, or the loop goes on.\<close>

datatype body_completion = Return SyncResult run_state | Next run_state

definition catch_block :: "thrown \<Rightarrow> string \<Rightarrow> nat \<Rightarrow> run_state \<Rightarrow> body_completion" where
  "catch_block message label attempt st0 =
     (let isLastAttempt = (attempt = MAX_RETRIES) in
      if isLastAttempt then
        (let st1 = st0\<lparr>count := count st0 + 1\<rparr>;
             st2 = emit (Error_failed_after label MAX_RETRIES message) st1;
             st3 = (if CONSECUTIVE_FAILURE_THRESHOLD \<le> count st2
                    then emit (Error_warning label (count st2)) st2 else st2)
         in Return \<lparr>ok = False, data = None\<rparr> st3)
      else
        (let delay = 2 ^ attempt * 1000;
             st1 = emit (Error_retrying label attempt MAX_RETRIES (delay div 1000) message) st0;
             st2 = emit (Sleep delay) st1
         in Next st2))"

definition loop_body ::
  "(nat \<Rightarrow> fetch_outcome) \<Rightarrow> string \<Rightarrow> string \<Rightarrow> nat \<Rightarrow> run_state \<Rightarrow> body_completion" where
  "loop_body env url label attempt st =
     (case try_block (env attempt) url label st of
        Returned r st' \<Rightarrow> Return r st'
      | Threw e st' \<Rightarrow> catch_block e label attempt st')"

text \<open>
  The \<open>for\<close> loop from a given value of \<open>attempt\<close>, and the \<open>return { ok: false }\<close>
  after it. \<open>env k\<close> is the outcome of the fetch of try \<open>k\<close>.
\<close>

function postWithRetry_loop ::
  "(nat \<Rightarrow> fetch_outcome) \<Rightarrow> string \<Rightarrow> string \<Rightarrow> nat \<Rightarrow> run_state \<Rightarrow> SyncResult \<times> run_state" where
  "postWithRetry_loop env url label attempt st =
     (if attempt \<le> MAX_RETRIES then
        (case loop_body env url label attempt st of
           Return r st' \<Rightarrow> (r, st')
         | Next st' \<Rightarrow> postWithRetry_loop env url label (attempt + 1) st')
      else (\<lparr>ok = False, data = None\<rparr>, st))"
  by pat_completeness auto
termination
  by (relation "measure (\<lambda>(env, url, label, attempt, st). MAX_RETRIES + 1 - attempt)") auto

definition postWithRetry ::
  "(nat \<Rightarrow> fetch_outcome) \<Rightarrow> string \<Rightarrow> string \<Rightarrow> run_state \<Rightarrow> SyncResult \<times> run_state" where
  "postWithRetry env url label consecutiveFailures =
     postWithRetry_loop env url label 1 consecutiveFailures"

text \<open>An environment given by the outcomes of tries 1, 2 and 3.\<close>

definition tries :: "fetch_outcome \<Rightarrow> fetch_outcome \<Rightarrow> fetch_outcome \<Rightarrow> nat \<Rightarrow> fetch_outcome" where
  "tries o1 o2 o3 attempt = (if attempt = 1 then o1 else if attempt = 2 then o2 else o3)"

section \<open>syncMembers\<close>

definition DEFAULT_MEMBERS_INTERVAL :: js_number where
  "DEFAULT_MEMBERS_INTERVAL = Finite (1000 * 60 * 5)"

text \<open>The truthiness of \<open>result.data\<close>; a missing property is \<open>undefined\<close>, which is falsy.\<close>

definition data_truthy :: "json_value option \<Rightarrow> bool" where
  "data_truthy d = (case d of None \<Rightarrow> False | Some v \<Rightarrow> truthy v)"

text \<open>The value of \<open>nextInterval\<close> when \<open>setTimeout\<close> is called.\<close>

definition members_nextInterval :: "SyncResult \<Rightarrow> js_number" where
  "members_nextInterval result =
     (let nextInterval = DEFAULT_MEMBERS_INTERVAL in
      if ok result \<and> data_truthy (data result) then
        (case (case data result of None \<Rightarrow> None | Some d \<Rightarrow> get_nextCheckInSeconds d) of
           Some (JNumber nextCheckInSeconds) \<Rightarrow>
             if js_gt nextCheckInSeconds (Finite 0)
             then js_times nextCheckInSeconds (Finite 1000) else nextInterval
         | _ \<Rightarrow> nextInterval)
      else nextInterval)"

text \<open>
  One run of \<open>syncMembers\<close>, on the \<open>membersFailures\<close> counter. The success line shows
  \<open>nextInterval / 1000\<close>; the event carries \<open>nextInterval\<close>.
\<close>

definition syncMembers :: "(nat \<Rightarrow> fetch_outcome) \<Rightarrow> string \<Rightarrow> run_state \<Rightarrow> run_state" where
  "syncMembers env url membersFailures =
     (case postWithRetry env url ''members'' membersFailures of
        (result, st) \<Rightarrow>
          (let nextInterval = members_nextInterval result;
               st1 = (if ok result \<and> data_truthy (data result)
                      then emit (Log_members_synced nextInterval) st else st)
           in emit (SetTimeout_syncMembers nextInterval) st1))"

section \<open>The process: start-up, timers, shutdown\<close>

text \<open>The three values read from \<open>process.env\<close>; None is a variable that is not set.\<close>

record environment =
  DASHBOARD_URL :: "string option"
  MEMBERS_URL :: "string option"
  CRON_SECRET :: "string option"

text \<open>The test \<open>!X\<close> on such a value: true for \<open>undefined\<close> and for the empty string.\<close>

definition not_set :: "string option \<Rightarrow> bool" where
  "not_set v = (case v of None \<Rightarrow> True | Some s \<Rightarrow> s = [])"

datatype console_line =
    Is_not_set string
  | Received_shutting_down string
  | Unhandled_promise_rejection string
  | Uncaught_exception string

text \<open>
  The process: its console, the ids of the timers that are armed, the two variables
  that hold timer ids, the task runs begun so far (each begins with a fetch), whether
  a run of \<open>syncMembers\<close> has not yet reached its \<open>setTimeout\<close>, and the exit code
  once \<open>process.exit\<close> has been called.
\<close>

record process =
  console :: "console_line list"
  timers :: "nat list"
  next_timer :: nat
  ordersIntervalId :: "nat option"
  membersTimeoutId :: "nat option"
  invoked :: "string list"
  members_in_flight :: bool
  exit_code :: "nat option"

definition initial :: process where
  "initial = \<lparr>console = [], timers = [], next_timer = 0, ordersIntervalId = None,
     membersTimeoutId = None, invoked = [], members_in_flight = False, exit_code = None\<rparr>"

definition console_write :: "console_line \<Rightarrow> process \<Rightarrow> process" where
  "console_write l p = p\<lparr>console := console p @ [l]\<rparr>"

definition exit :: "nat \<Rightarrow> process \<Rightarrow> process" where
  "exit code p = p\<lparr>exit_code := Some code\<rparr>"

text \<open>\<open>clearInterval\<close> and \<open>clearTimeout\<close>: disarm that timer; \<open>undefined\<close> disarms nothing.\<close>

definition clearTimer :: "nat option \<Rightarrow> process \<Rightarrow> process" where
  "clearTimer tid p = (case tid of None \<Rightarrow> p | Some i \<Rightarrow> p\<lparr>timers := removeAll i (timers p)\<rparr>)"

text \<open>The top-level statements of the module, in order.\<close>

definition main :: "environment \<Rightarrow> process" where
  "main env =
     (if not_set (CRON_SECRET env) then exit 1 (console_write (Is_not_set ''CRON_SECRET'') initial)
      else if not_set (DASHBOARD_URL env) then exit 1 (console_write (Is_not_set ''DASHBOARD_URL'') initial)
      else if not_set (MEMBERS_URL env) then exit 1 (console_write (Is_not_set ''MEMBERS_URL'') initial)
      else
        (let p1 = initial\<lparr>timers := [next_timer initial], next_timer := next_timer initial + 1,
                    ordersIntervalId := Some (next_timer initial)\<rparr>;
             p2 = p1\<lparr>invoked := invoked p1 @ [''orders'']\<rparr>;
             p3 = p2\<lparr>invoked := invoked p2 @ [''members''], members_in_flight := True\<rparr>
         in p3))"

text \<open>The interval timer fires: another run of \<open>syncOrders\<close> begins; the timer stays armed.\<close>

definition orders_interval_fires :: "process \<Rightarrow> process" where
  "orders_interval_fires p = p\<lparr>invoked := invoked p @ [''orders'']\<rparr>"

text \<open>The single-shot timer \<open>i\<close> fires: it is no longer armed, and \<open>syncMembers\<close> begins.\<close>

definition members_timeout_fires :: "nat \<Rightarrow> process \<Rightarrow> process" where
  "members_timeout_fires i p =
     p\<lparr>timers := removeAll i (timers p), invoked := invoked p @ [''members''],
       members_in_flight := True\<rparr>"

text \<open>The last statement of \<open>syncMembers\<close>: \<open>membersTimeoutId = setTimeout(syncMembers, nextInterval)\<close>.\<close>

definition members_rearms :: "process \<Rightarrow> process" where
  "members_rearms p =
     p\<lparr>timers := next_timer p # timers p, next_timer := next_timer p + 1,
       membersTimeoutId := Some (next_timer p), members_in_flight := False\<rparr>"

definition shutdown :: "string \<Rightarrow> process \<Rightarrow> process" where
  "shutdown signal p =
     (let p1 = console_write (Received_shutting_down signal) p;
          p2 = clearTimer (ordersIntervalId p1) p1;
          p3 = clearTimer (membersTimeoutId p2) p2
      in exit 0 p3)"

text \<open>The four listeners registered with \<open>process.on\<close>.\<close>

datatype process_event =
    SIGINT
  | SIGTERM
  | UnhandledRejection string
  | UncaughtException string

fun handle :: "process_event \<Rightarrow> process \<Rightarrow> process" where
  "handle SIGINT p = shutdown ''SIGINT'' p"
| "handle SIGTERM p = shutdown ''SIGTERM'' p"
| "handle (UnhandledRejection reason) p = exit 1 (console_write (Unhandled_promise_rejection reason) p)"
| "handle (UncaughtException error) p = exit 1 (console_write (Uncaught_exception error) p)"

text \<open>The states of a process that started and has not exited.\<close>

inductive running :: "environment \<Rightarrow> process \<Rightarrow> bool" for env :: environment where
  started: "exit_code (main env) = None \<Longrightarrow> running env (main env)"
| orders_tick: "running env p \<Longrightarrow> running env (orders_interval_fires p)"
| members_tick:
    "running env p \<Longrightarrow> membersTimeoutId p = Some i \<Longrightarrow> i \<in> set (timers p) \<Longrightarrow>
     running env (members_timeout_fires i p)"
| members_done:
    "running env p \<Longrightarrow> members_in_flight p \<Longrightarrow> running env (members_rearms p)"

section \<open>Vocabulary of the properties\<close>

fun is_Fetch :: "event \<Rightarrow> bool" where
  "is_Fetch (Fetch url label) = True"
| "is_Fetch e = False"

fun is_Sleep :: "event \<Rightarrow> bool" where
  "is_Sleep (Sleep ms) = True"
| "is_Sleep e = False"

definition fetches :: "event list \<Rightarrow> nat" where
  "fetches es = length (filter is_Fetch es)"

definition waits :: "event list \<Rightarrow> nat" where
  "waits es = length (filter is_Sleep es)"

text \<open>
  A retryable failing outcome: a network error or a timeout (the fetch rejects), or a
  failing status outside the non-retryable set.
\<close>

fun retryable_failure :: "fetch_outcome \<Rightarrow> bool" where
  "retryable_failure (Rejects m) = True"
| "retryable_failure (Resolves r) = (\<not> response_ok r \<and> status r \<notin> NON_RETRYABLE_STATUSES)"

fun thrown_by :: "fetch_outcome \<Rightarrow> thrown" where
  "thrown_by (Rejects m) = FetchRejected m"
| "thrown_by (Resolves r) = HttpError (status r) (statusText r)"

text \<open>An outcome on which the \<open>try\<close> block throws, so that the \<open>catch\<close> block runs.\<close>

fun throws :: "fetch_outcome \<Rightarrow> bool" where
  "throws (Rejects m) = True"
| "throws (Resolves r) =
     (if response_ok r then (case json r of Inl m \<Rightarrow> True | Inr d \<Rightarrow> False)
      else status r \<notin> NON_RETRYABLE_STATUSES)"

fun state_of :: "body_completion \<Rightarrow> run_state" where
  "state_of (Return r st) = st"
| "state_of (Next st) = st"

text \<open>
  Every armed timer is held by one of the two variables, and while a run of
  \<open>syncMembers\<close> is under way the timer that started it is no longer armed.
\<close>

definition timers_tracked :: "process \<Rightarrow> bool" where
  "timers_tracked p =
     (set (timers p) \<subseteq> set_option (ordersIntervalId p) \<union> set_option (membersTimeoutId p) \<and>
      (if members_in_flight p
       then (case membersTimeoutId p of None \<Rightarrow> True | Some i \<Rightarrow> i \<notin> set (timers p))
       else True))"

section \<open>Stepping through the loop\<close>

declare postWithRetry_loop.simps [simp del]

lemma loop_enter:
  "attempt \<le> MAX_RETRIES \<Longrightarrow>
   postWithRetry_loop env url label attempt st =
     (case loop_body env url label attempt st of
        Return r st' \<Rightarrow> (r, st')
      | Next st' \<Rightarrow> postWithRetry_loop env url label (attempt + 1) st')"
  by (subst postWithRetry_loop.simps) simp

lemma loop_exit:
  "MAX_RETRIES < attempt \<Longrightarrow>
   postWithRetry_loop env url label attempt st = (\<lparr>ok = False, data = None\<rparr>, st)"
  by (subst postWithRetry_loop.simps) simp

lemma nonretryable_not_ok:
  "status r \<in> NON_RETRYABLE_STATUSES \<Longrightarrow> \<not> response_ok r"
  by (auto simp: NON_RETRYABLE_STATUSES_def response_ok_def)

lemma body_success:
  "env attempt = Resolves r \<Longrightarrow> response_ok r \<Longrightarrow> json r = Inr d \<Longrightarrow>
   loop_body env url label attempt st =
     Return \<lparr>ok = True, data = Some d\<rparr> (st\<lparr>count := 0, trace := trace st @ [Fetch url label]\<rparr>)"
  by (simp add: loop_body_def try_block_def emit_def)

lemma body_nonretryable:
  "env attempt = Resolves r \<Longrightarrow> status r \<in> NON_RETRYABLE_STATUSES \<Longrightarrow>
   loop_body env url label attempt st =
     Return \<lparr>ok = False, data = None\<rparr>
       (st\<lparr>count := count st + 1,
           trace := trace st @ [Fetch url label,
             Error_not_retryable label (status r) (statusText r)]\<rparr>)"
  by (simp add: loop_body_def try_block_def emit_def nonretryable_not_ok)

lemma try_retryable:
  "retryable_failure outcome \<Longrightarrow>
   try_block outcome url label st = Threw (thrown_by outcome) (st\<lparr>trace := trace st @ [Fetch url label]\<rparr>)"
  by (cases outcome) (simp_all add: try_block_def emit_def)

lemma body_retry:
  "retryable_failure (env attempt) \<Longrightarrow> attempt \<noteq> MAX_RETRIES \<Longrightarrow>
   loop_body env url label attempt st =
     Next (st\<lparr>trace := trace st @ [Fetch url label,
             Error_retrying label attempt MAX_RETRIES (2 ^ attempt) (thrown_by (env attempt)),
             Sleep (2 ^ attempt * 1000)]\<rparr>)"
  by (simp add: loop_body_def try_retryable catch_block_def emit_def)

lemma body_exhausted:
  "retryable_failure (env MAX_RETRIES) \<Longrightarrow>
   loop_body env url label MAX_RETRIES st =
     Return \<lparr>ok = False, data = None\<rparr>
       (st\<lparr>count := count st + 1,
           trace := trace st @ [Fetch url label,
             Error_failed_after label MAX_RETRIES (thrown_by (env MAX_RETRIES))] @
             (if CONSECUTIVE_FAILURE_THRESHOLD \<le> count st + 1
              then [Error_warning label (count st + 1)] else [])\<rparr>)"
  by (simp add: loop_body_def try_retryable catch_block_def emit_def)


lemma fetches_append [simp]: "fetches (xs @ ys) = fetches xs + fetches ys"
  by (simp add: fetches_def)

lemma fetches_Nil [simp]: "fetches [] = 0"
  by (simp add: fetches_def)

lemma fetches_Cons [simp]: "fetches (e # es) = (if is_Fetch e then 1 else 0) + fetches es"
  by (simp add: fetches_def)

lemma try_block_trace:
  "\<exists>rest. fetches rest = 0 \<and>
     trace (case try_block outcome url label st of Returned r s \<Rightarrow> s | Threw e s \<Rightarrow> s) =
       trace st @ Fetch url label # rest"
  by (cases outcome) (auto simp: try_block_def emit_def Let_def split: sum.splits)

lemma catch_block_trace:
  "\<exists>rest. fetches rest = 0 \<and>
     trace (state_of (catch_block e label attempt st)) = trace st @ rest"
  by (simp add: catch_block_def emit_def Let_def)

lemma loop_body_trace:
  "\<exists>rest. fetches rest = 0 \<and>
     trace (state_of (loop_body env url label attempt st)) = trace st @ Fetch url label # rest"
proof -
  obtain r1 where r1: "fetches r1 = 0"
    "trace (case try_block (env attempt) url label st of Returned r s \<Rightarrow> s | Threw e s \<Rightarrow> s) =
       trace st @ Fetch url label # r1"
    using try_block_trace by blast
  show ?thesis
  proof (cases "try_block (env attempt) url label st")
    case (Returned r s)
    with r1 show ?thesis by (auto simp: loop_body_def)
  next
    case (Threw e s)
    obtain r2 where r2: "fetches r2 = 0"
      "trace (state_of (catch_block e label attempt s)) = trace s @ r2"
      using catch_block_trace by blast
    from Threw r1 r2 have
      "trace (state_of (loop_body env url label attempt st)) = trace st @ Fetch url label # (r1 @ r2)"
      by (simp add: loop_body_def)
    moreover have "fetches (r1 @ r2) = 0" using r1 r2 by simp
    ultimately show ?thesis by blast
  qed
qed

lemma loop_body_fetches:
  "fetches (trace (state_of (loop_body env url label attempt st))) = fetches (trace st) + 1"
  using loop_body_trace [of env url label attempt st] by auto

lemma loop_fetches_upper:
  "attempt \<le> MAX_RETRIES + 1 \<Longrightarrow>
   fetches (trace (snd (postWithRetry_loop env url label attempt st)))
     \<le> fetches (trace st) + (MAX_RETRIES + 1 - attempt)"
proof (induction env url label attempt st rule: postWithRetry_loop.induct)
  case (1 env url label attempt st)
  show ?case
  proof (cases "attempt \<le> MAX_RETRIES")
    case False
    then show ?thesis by (simp add: loop_exit)
  next
    case True
    note le = this
    show ?thesis
    proof (cases "loop_body env url label attempt st")
      case (Return r st')
      with le loop_body_fetches [of env url label attempt st] show ?thesis
        by (simp add: loop_enter)
    next
      case (Next st')
      with le "1.IH" [OF le Next] loop_body_fetches [of env url label attempt st] show ?thesis
        by (simp add: loop_enter)
    qed
  qed
qed

lemma loop_fetches_lower:
  "attempt \<le> MAX_RETRIES \<Longrightarrow>
   fetches (trace st) + 1 \<le> fetches (trace (snd (postWithRetry_loop env url label attempt st)))"
proof (induction env url label attempt st rule: postWithRetry_loop.induct)
  case (1 env url label attempt st)
  note le = "1.prems"
  show ?case
  proof (cases "loop_body env url label attempt st")
    case (Return r st')
    with le loop_body_fetches [of env url label attempt st] show ?thesis
      by (simp add: loop_enter)
  next
    case (Next st')
    have f: "fetches (trace st') = fetches (trace st) + 1"
      using Next loop_body_fetches [of env url label attempt st] by simp
    show ?thesis
    proof (cases "attempt + 1 \<le> MAX_RETRIES")
      case True
      with "1.IH" [OF le Next True] le Next f show ?thesis by (simp add: loop_enter)
    next
      case False
      with le Next f show ?thesis by (simp add: loop_enter loop_exit)
    qed
  qed
qed

lemma last_body_returns:
  "\<exists>r st'. loop_body env url label MAX_RETRIES st = Return r st'"
  by (cases "env MAX_RETRIES")
     (auto simp: loop_body_def try_block_def catch_block_def Let_def split: sum.splits)


lemma loop_trace_extends:
  "\<exists>rest. trace (snd (postWithRetry_loop env url label attempt st)) = trace st @ rest"
proof (induction env url label attempt st rule: postWithRetry_loop.induct)
  case (1 env url label attempt st)
  show ?case
  proof (cases "attempt \<le> MAX_RETRIES")
    case False
    then show ?thesis by (simp add: loop_exit)
  next
    case True
    note le = this
    obtain r1 where r1: "trace (state_of (loop_body env url label attempt st)) = trace st @ r1"
      using loop_body_trace [of env url label attempt st] by auto
    show ?thesis
    proof (cases "loop_body env url label attempt st")
      case (Return r st')
      with le r1 show ?thesis by (simp add: loop_enter)
    next
      case (Next st')
      obtain r2 where
        "trace (snd (postWithRetry_loop env url label (attempt + 1) st')) = trace st' @ r2"
        using "1.IH" [OF le Next] by blast
      with le r1 Next show ?thesis by (simp add: loop_enter)
    qed
  qed
qed

lemma loop_begins_with_fetch:
  assumes "attempt \<le> MAX_RETRIES"
  shows "\<exists>rest. trace (snd (postWithRetry_loop env url label attempt st)) =
           trace st @ Fetch url label # rest"
proof -
  obtain r1 where r1:
    "trace (state_of (loop_body env url label attempt st)) = trace st @ Fetch url label # r1"
    using loop_body_trace [of env url label attempt st] by auto
  show ?thesis
  proof (cases "loop_body env url label attempt st")
    case (Return r st')
    with assms r1 show ?thesis by (simp add: loop_enter)
  next
    case (Next st')
    obtain r2 where
      "trace (snd (postWithRetry_loop env url label (attempt + 1) st')) = trace st' @ r2"
      using loop_trace_extends by blast
    with assms r1 Next show ?thesis by (simp add: loop_enter)
  qed
qed

lemmas run_defs = postWithRetry_def loop_enter loop_exit loop_body_def try_block_def catch_block_def
  emit_def tries_def MAX_RETRIES_def CONSECUTIVE_FAILURE_THRESHOLD_def NON_RETRYABLE_STATUSES_def
  response_ok_def Let_def


lemma waits_append [simp]: "waits (xs @ ys) = waits xs + waits ys"
  by (simp add: waits_def)

lemma waits_Nil [simp]: "waits [] = 0"
  by (simp add: waits_def)

lemma waits_Cons [simp]: "waits (e # es) = (if is_Sleep e then 1 else 0) + waits es"
  by (simp add: waits_def)

lemma throws_iff:
  "throws outcome \<longleftrightarrow> (\<exists>e s. try_block outcome url label st = Threw e s)"
  by (cases outcome) (auto simp: try_block_def Let_def split: sum.splits)

lemma retryable_failure_throws: "retryable_failure outcome \<Longrightarrow> throws outcome"
  by (cases outcome) auto

lemma body_throws:
  assumes "throws (env attempt)" and "attempt \<noteq> MAX_RETRIES"
  shows "\<exists>st1. loop_body env url label attempt st = Next st1 \<and>
           fetches (trace st1) = fetches (trace st) + 1 \<and>
           waits (trace st1) = waits (trace st) + 1 \<and>
           (retryable_failure (env attempt) \<longrightarrow> count st1 = count st)"
  using assms
  by (cases "env attempt")
     (auto simp: loop_body_def try_block_def catch_block_def emit_def Let_def split: sum.splits)

lemma loop_prefix:
  "a + n \<le> MAX_RETRIES \<Longrightarrow> (\<forall>j. a \<le> j \<and> j < a + n \<longrightarrow> throws (env j)) \<Longrightarrow>
   \<exists>st'. postWithRetry_loop env url label a st = postWithRetry_loop env url label (a + n) st' \<and>
         fetches (trace st') = fetches (trace st) + n \<and>
         waits (trace st') = waits (trace st) + n \<and>
         ((\<forall>j. a \<le> j \<and> j < a + n \<longrightarrow> retryable_failure (env j)) \<longrightarrow> count st' = count st)"
proof (induction n arbitrary: a st)
  case 0
  have "postWithRetry_loop env url label a st = postWithRetry_loop env url label (a + 0) st \<and>
        fetches (trace st) = fetches (trace st) + 0 \<and> waits (trace st) = waits (trace st) + 0 \<and>
        ((\<forall>j. a \<le> j \<and> j < a + 0 \<longrightarrow> retryable_failure (env j)) \<longrightarrow> count st = count st)"
    by simp
  then show ?case by blast
next
  case (Suc n)
  from Suc.prems have a: "a \<le> MAX_RETRIES" "a \<noteq> MAX_RETRIES" "throws (env a)" by auto
  obtain st1 where st1: "loop_body env url label a st = Next st1"
    "fetches (trace st1) = fetches (trace st) + 1" "waits (trace st1) = waits (trace st) + 1"
    "retryable_failure (env a) \<longrightarrow> count st1 = count st"
    using body_throws [of env a url label st] a by blast
  from Suc.prems have "Suc a + n \<le> MAX_RETRIES"
    and "\<forall>j. Suc a \<le> j \<and> j < Suc a + n \<longrightarrow> throws (env j)" by auto
  from Suc.IH [OF this, of st1] obtain st' where st':
    "postWithRetry_loop env url label (Suc a) st1 = postWithRetry_loop env url label (Suc a + n) st'"
    "fetches (trace st') = fetches (trace st1) + n" "waits (trace st') = waits (trace st1) + n"
    "(\<forall>j. Suc a \<le> j \<and> j < Suc a + n \<longrightarrow> retryable_failure (env j)) \<longrightarrow> count st' = count st1"
    by blast
  have "postWithRetry_loop env url label a st = postWithRetry_loop env url label (a + Suc n) st'"
    using a st1 st' by (simp add: loop_enter)
  moreover have "fetches (trace st') = fetches (trace st) + Suc n"
    and "waits (trace st') = waits (trace st) + Suc n"
    using st1 st' by simp_all
  moreover have
    "(\<forall>j. a \<le> j \<and> j < a + Suc n \<longrightarrow> retryable_failure (env j)) \<longrightarrow> count st' = count st"
  proof
    assume all: "\<forall>j. a \<le> j \<and> j < a + Suc n \<longrightarrow> retryable_failure (env j)"
    then have "retryable_failure (env a)" by simp
    moreover from all have "\<forall>j. Suc a \<le> j \<and> j < Suc a + n \<longrightarrow> retryable_failure (env j)" by simp
    ultimately show "count st' = count st" using st1 st' by simp
  qed
  ultimately show ?case by blast
qed

lemma reaches_try:
  assumes "1 \<le> k" and "k \<le> MAX_RETRIES" and "\<forall>j. 1 \<le> j \<and> j < k \<longrightarrow> throws (env j)"
  shows "\<exists>st'. postWithRetry env url label st = postWithRetry_loop env url label k st' \<and>
           fetches (trace st') = fetches (trace st) + (k - 1) \<and>
           waits (trace st') = waits (trace st) + (k - 1) \<and>
           ((\<forall>j. 1 \<le> j \<and> j < k \<longrightarrow> retryable_failure (env j)) \<longrightarrow> count st' = count st)"
proof -
  from assms have "1 + (k - 1) \<le> MAX_RETRIES"
    and "\<forall>j. 1 \<le> j \<and> j < 1 + (k - 1) \<longrightarrow> throws (env j)" by auto
  from loop_prefix [OF this, of url label st] assms(1) show ?thesis
    by (simp add: postWithRetry_def)
qed

lemma count_nonneg_body:
  "0 \<le> count st \<Longrightarrow> 0 \<le> count (state_of (loop_body env url label attempt st))"
  by (cases "env attempt")
     (auto simp: loop_body_def try_block_def catch_block_def emit_def Let_def split: sum.splits)

lemma count_nonneg:
  "0 \<le> count st \<Longrightarrow> 0 \<le> count (snd (postWithRetry_loop env url label attempt st))"
proof (induction env url label attempt st rule: postWithRetry_loop.induct)
  case (1 env url label attempt st)
  show ?case
  proof (cases "attempt \<le> MAX_RETRIES")
    case False
    with "1.prems" show ?thesis by (simp add: loop_exit)
  next
    case True
    note le = this
    show ?thesis
    proof (cases "loop_body env url label attempt st")
      case (Return r st')
      with le "1.prems" count_nonneg_body [of st env url label attempt] show ?thesis
        by (simp add: loop_enter)
    next
      case (Next st')
      with "1.prems" count_nonneg_body [of st env url label attempt] have "0 \<le> count st'" by simp
      from "1.IH" [OF le Next this] le Next show ?thesis by (simp add: loop_enter)
    qed
  qed
qed

section \<open>Timers and the next interval\<close>

lemma running_timers_tracked: "running env p \<Longrightarrow> timers_tracked p"
proof (induction rule: running.induct)
  case started
  then show ?case
    by (auto simp: timers_tracked_def main_def initial_def exit_def console_write_def Let_def
             split: if_splits)
next
  case (orders_tick p)
  then show ?case
    by (auto simp: timers_tracked_def orders_interval_fires_def split: if_splits option.splits)
next
  case (members_tick p i)
  then show ?case
    by (auto simp: timers_tracked_def members_timeout_fires_def split: if_splits option.splits)
next
  case (members_done p)
  then show ?case
    by (auto simp: timers_tracked_def members_rearms_def split: if_splits option.splits)
qed

lemma shutdown_exit_code: "exit_code (shutdown signal p) = Some 0"
  by (simp add: shutdown_def exit_def clearTimer_def console_write_def Let_def split: option.splits)

lemma shutdown_console:
  "console (shutdown signal p) = console p @ [Received_shutting_down signal]"
  by (simp add: shutdown_def exit_def clearTimer_def console_write_def Let_def split: option.splits)

lemma shutdown_timers:
  "timers_tracked p \<Longrightarrow> timers (shutdown signal p) = []"
  by (cases "ordersIntervalId p"; cases "membersTimeoutId p")
     (auto simp: timers_tracked_def shutdown_def exit_def clearTimer_def console_write_def Let_def
                 filter_empty_conv removeAll_filter_not_eq)

lemma main_complete:
  "\<not> not_set (CRON_SECRET env) \<Longrightarrow> \<not> not_set (DASHBOARD_URL env) \<Longrightarrow> \<not> not_set (MEMBERS_URL env) \<Longrightarrow>
   main env = \<lparr>console = [], timers = [0], next_timer = 1, ordersIntervalId = Some 0,
     membersTimeoutId = None, invoked = [''orders'', ''members''], members_in_flight = True,
     exit_code = None\<rparr>"
  by (simp add: main_def initial_def Let_def)

text \<open>
  What the rounding guarantees: \<open>floor_log2\<close> is the binary exponent; a finite result
  is a multiple \<open>m * 2 ^ q\<close> of a spacing in the binary64 range, with at most 53
  significant bits, within half that spacing of the exact value, and below \<open>2 ^ 1024\<close>;
  and the result is infinite only from \<open>2 ^ 1024 - 2 ^ 970\<close> on, the midpoint between
  the largest finite value and \<open>2 ^ 1024\<close>.
\<close>

lemma pow2_powi: "pow2 e = 2 powi e"
  by (simp add: pow2_def power_int_def field_simps)

lemma pow2_pos: "0 < pow2 e"
  by (simp add: pow2_def)

lemma pow2_add: "pow2 (a + b) = pow2 a * pow2 b"
  by (simp add: pow2_powi power_int_add)

lemma pow2_mono: "a \<le> b \<Longrightarrow> pow2 a \<le> pow2 b"
  by (simp add: pow2_powi power_int_increasing)

lemma round_half_even_nearest: "\<bar>of_int (round_half_even x) - x\<bar> \<le> 1 / 2"
  by (auto simp: round_half_even_def Let_def abs_if; linarith)

lemma round_half_even_le: "x \<le> of_int n \<Longrightarrow> round_half_even x \<le> n"
proof -
  assume a: "x \<le> of_int n"
  show ?thesis
  proof (cases "x = of_int n")
    case True
    then show ?thesis by (simp add: round_half_even_def)
  next
    case False
    with a have "x < of_int n" by simp
    then have "\<lfloor>x\<rfloor> < n" by (simp add: floor_less_iff)
    then show ?thesis by (auto simp: round_half_even_def Let_def)
  qed
qed

lemma round_half_even_nonneg: "0 \<le> x \<Longrightarrow> 0 \<le> round_half_even x"
  by (auto simp: round_half_even_def Let_def)

lemma floor_log2_bounds:
  assumes "0 < a"
  shows "pow2 (floor_log2 a) \<le> a \<and> a < pow2 (floor_log2 a + 1)"
proof (cases "1 \<le> a")
  case True
  define n where "n = \<lfloor>a\<rfloor>"
  have n0: "0 < n" using True by (simp add: n_def)
  have n1: "of_int n \<le> a" "a < of_int (n + 1)" by (simp_all add: n_def) linarith
  from bitlen_bounds [OF n0] have b: "2 ^ nat (bitlen n - 1) \<le> n" "n + 1 \<le> 2 ^ nat (bitlen n)"
    by auto
  have b1: "1 \<le> bitlen n" using n0 by (simp add: bitlen_alt_def)
  have "(2::rat) ^ nat (bitlen n - 1) = of_int (2 ^ nat (bitlen n - 1))" by simp
  also have "\<dots> \<le> of_int n" using b(1) by (simp only: of_int_le_iff)
  finally have "(2::rat) ^ nat (bitlen n - 1) \<le> of_int n" .
  then have lo: "(2::rat) ^ nat (bitlen n - 1) \<le> a" using n1(1) by (rule order_trans)
  have "(of_int (n + 1) :: rat) \<le> of_int (2 ^ nat (bitlen n))" using b(2) by (simp only: of_int_le_iff)
  with n1(2) have "a < (of_int (2 ^ nat (bitlen n)) :: rat)" by (rule less_le_trans)
  then have hi: "a < (2::rat) ^ nat (bitlen n)" by simp
  from lo hi b1 True show ?thesis
    by (simp add: floor_log2_def pow2_def n_def [symmetric])
next
  case False
  define c where "c = \<lceil>1 / a\<rceil>"
  define k where "k = bitlen (c - 1)"
  from False assms have inv: "1 < 1 / a" by simp
  have c1: "of_int c - 1 < 1 / a" "1 / a \<le> of_int c"
    using ceiling_correct [of "1 / a"] by (simp_all add: c_def)
  from inv c1(2) have "(1::rat) < of_int c" by (rule less_le_trans)
  then have c0: "0 < c - 1" by simp
  from bitlen_bounds [OF c0] have b: "2 ^ nat (k - 1) \<le> c - 1" "c \<le> 2 ^ nat k"
    by (auto simp: k_def)
  have k1: "1 \<le> k" using c0 by (simp add: k_def bitlen_alt_def)
  have "(of_int c :: rat) \<le> of_int (2 ^ nat k)" using b(2) by (simp only: of_int_le_iff)
  with c1(2) have "1 / a \<le> (of_int (2 ^ nat k) :: rat)" by (rule order_trans)
  then have up: "1 / a \<le> (2::rat) ^ nat k" by simp
  have p: "(0::rat) < 2 ^ nat k" by simp
  have lo: "1 / 2 ^ nat k \<le> a"
  proof -
    from up assms have "1 \<le> 2 ^ nat k * a" by (simp add: pos_divide_le_eq mult.commute)
    then show ?thesis using p by (simp add: pos_divide_le_eq mult.commute)
  qed
  have "(of_int (2 ^ nat (k - 1)) :: rat) \<le> of_int (c - 1)" using b(1) by (simp only: of_int_le_iff)
  then have "(2::rat) ^ nat (k - 1) \<le> of_int c - 1" by simp
  then have dn: "(2::rat) ^ nat (k - 1) < 1 / a" using c1(1) by (rule le_less_trans)
  have p': "(0::rat) < 2 ^ nat (k - 1)" by simp
  have hi: "a < 1 / 2 ^ nat (k - 1)"
  proof -
    from dn assms have "2 ^ nat (k - 1) * a < 1" by (simp add: pos_less_divide_eq)
    then show ?thesis using p' by (simp add: pos_less_divide_eq mult.commute)
  qed
  have fl: "floor_log2 a = - k" using False by (simp add: floor_log2_def k_def c_def)
  show ?thesis
  proof (cases "k = 1")
    case True
    with lo hi fl show ?thesis by (simp add: pow2_def)
  next
    case False
    with k1 have "\<not> k \<le> 1" by simp
    with lo hi fl show ?thesis by (simp add: pow2_def)
  qed
qed

lemma pow2_0: "pow2 0 = 1"
  by (simp add: pow2_def)

lemma pow2_cancel: "pow2 (- q) * pow2 q = 1"
  using pow2_add [of "- q" q] by (simp add: pow2_0)

lemma pow2_strict_mono: "a < b \<Longrightarrow> pow2 a < pow2 b"
  by (simp add: pow2_powi power_int_strict_increasing)

lemma round_binary64_finite:
  assumes "round_binary64 x = Finite y"
  shows "\<exists>m q. y = of_int m * pow2 q \<and> \<bar>m\<bar> \<le> 2 ^ 53 \<and> - 1074 \<le> q \<and> q \<le> 971 \<and>
           \<bar>y - x\<bar> \<le> pow2 q / 2 \<and> \<bar>y\<bar> < pow2 1024"
proof (cases "x = 0")
  case True
  with assms have "y = 0" by (simp add: round_binary64_def)
  with True have "y = of_int 0 * pow2 0 \<and> \<bar>0::int\<bar> \<le> 2 ^ 53 \<and> - 1074 \<le> (0::int) \<and> (0::int) \<le> 971 \<and>
           \<bar>y - x\<bar> \<le> pow2 0 / 2 \<and> \<bar>y\<bar> < pow2 1024"
    by (simp add: pow2_pos pow2_0)
  then show ?thesis by blast
next
  case False
  define a where "a = \<bar>x\<bar>"
  define e where "e = floor_log2 a"
  define q where "q = max e (- 1022) - 52"
  define t where "t = a * pow2 (- q)"
  define m where "m = round_half_even t"
  have a0: "0 < a" using False by (simp add: a_def)
  have e: "e < 1024"
    using assms False by (auto simp: round_binary64_def Let_def signed_infinity_def a_def e_def
        split: if_splits)
  have y: "y = (if 0 < x then of_int m * pow2 q else - (of_int m * pow2 q))"
    and nov: "\<not> (q = 971 \<and> m = 2 ^ 53)"
    using assms False e
    by (auto simp: round_binary64_def Let_def signed_infinity_def a_def e_def q_def t_def m_def
        split: if_splits)
  have q: "- 1074 \<le> q" "q \<le> 971" "e + 1 \<le> q + 53" using e by (simp_all add: q_def)
  have t0: "0 \<le> t" using a0 pow2_pos [of "- q"] by (simp add: t_def)
  then have m0: "0 \<le> m" unfolding m_def by (rule round_half_even_nonneg)
  have "a < pow2 (e + 1)" using floor_log2_bounds [OF a0] by (simp add: e_def)
  also have "\<dots> \<le> pow2 (q + 53)" using q(3) by (rule pow2_mono)
  finally have "a * pow2 (- q) < pow2 (q + 53) * pow2 (- q)"
    using pow2_pos [of "- q"] by simp
  also have "\<dots> = pow2 53" using pow2_add [of "q + 53" "- q"] by simp
  also have "\<dots> = of_int (2 ^ 53)" by (simp add: pow2_def)
  finally have "t \<le> of_int (2 ^ 53)" by (simp add: t_def)
  then have m53: "m \<le> 2 ^ 53" unfolding m_def by (rule round_half_even_le)
  have at: "a = t * pow2 q" using pow2_cancel [of q] by (simp add: t_def mult.assoc)
  have "\<bar>of_int m * pow2 q - a\<bar> = \<bar>of_int m - t\<bar> * pow2 q"
    using pow2_pos [of q] by (simp add: at left_diff_distrib [symmetric] abs_mult)
  also have "\<dots> \<le> (1 / 2) * pow2 q"
    using round_half_even_nearest [of t] pow2_pos [of q]
    by (intro mult_right_mono) (simp_all add: m_def)
  finally have err: "\<bar>of_int m * pow2 q - a\<bar> \<le> pow2 q / 2" by simp
  have bound: "of_int m * pow2 q < pow2 1024"
  proof (cases "q = 971")
    case True
    with nov m53 have "m < 2 ^ 53" by simp
    then have "(of_int m :: rat) < of_int (2 ^ 53)" by (simp only: of_int_less_iff)
    then have "of_int m * pow2 q < of_int (2 ^ 53) * pow2 q"
      using pow2_pos [of q] by simp
    also have "\<dots> = pow2 53 * pow2 971" using True by (simp add: pow2_def)
    also have "\<dots> = pow2 1024" using pow2_add [of 53 971] by simp
    finally show ?thesis .
  next
    case False
    with q(2) have "q \<le> 970" by simp
    then have "pow2 q \<le> pow2 970" by (rule pow2_mono)
    moreover have "(of_int m :: rat) \<le> of_int (2 ^ 53)" using m53 by (simp only: of_int_le_iff)
    moreover have "(0::rat) \<le> of_int m" using m0 by simp
    ultimately have "of_int m * pow2 q \<le> of_int (2 ^ 53) * pow2 970"
      using pow2_pos [of q] by (intro mult_mono) simp_all
    also have "\<dots> = pow2 53 * pow2 970" by (simp add: pow2_def)
    also have "\<dots> = pow2 1023" using pow2_add [of 53 970] by simp
    also have "\<dots> < pow2 1024" by (rule pow2_strict_mono) simp
    finally show ?thesis .
  qed
  have nonneg: "0 \<le> of_int m * pow2 q" using m0 pow2_pos [of q] by simp
  show ?thesis
  proof (cases "0 < x")
    case True
    with y err bound nonneg m0 m53 q have
      "y = of_int m * pow2 q \<and> \<bar>m\<bar> \<le> 2 ^ 53 \<and> - 1074 \<le> q \<and> q \<le> 971 \<and>
           \<bar>y - x\<bar> \<le> pow2 q / 2 \<and> \<bar>y\<bar> < pow2 1024"
      by (simp add: a_def)
    then show ?thesis by blast
  next
    case neg: False
    with False have xa: "x = - a" by (simp add: a_def)
    have "\<bar>- (of_int m * pow2 q) - x\<bar> = \<bar>of_int m * pow2 q - a\<bar>"
      unfolding xa by (simp add: abs_minus_commute)
    with neg y err bound nonneg m0 m53 q have
      "y = of_int (- m) * pow2 q \<and> \<bar>- m\<bar> \<le> 2 ^ 53 \<and> - 1074 \<le> q \<and> q \<le> 971 \<and>
           \<bar>y - x\<bar> \<le> pow2 q / 2 \<and> \<bar>y\<bar> < pow2 1024"
      by simp
    then show ?thesis by blast
  qed
qed

lemma round_binary64_infinite:
  assumes "round_binary64 x = PosInfinity \<or> round_binary64 x = NegInfinity"
  shows "pow2 1024 - pow2 970 \<le> \<bar>x\<bar> \<and> (round_binary64 x = PosInfinity \<longleftrightarrow> 0 < x)"
proof -
  define a where "a = \<bar>x\<bar>"
  define e where "e = floor_log2 a"
  define q where "q = max e (- 1022) - 52"
  define t where "t = a * pow2 (- q)"
  define m where "m = round_half_even t"
  from assms have x0: "x \<noteq> 0" by (auto simp: round_binary64_def)
  then have a0: "0 < a" by (simp add: a_def)
  from assms x0 have inf: "round_binary64 x = signed_infinity x"
    and why: "1024 \<le> e \<or> q = 971 \<and> m = 2 ^ 53"
    by (auto simp: round_binary64_def Let_def a_def e_def q_def t_def m_def split: if_splits)
  have small: "(0::rat) < pow2 970" by (rule pow2_pos)
  have big: "pow2 1024 - pow2 970 \<le> a"
  proof (cases "1024 \<le> e")
    case True
    then have "pow2 1024 \<le> pow2 e" by (rule pow2_mono)
    also have "\<dots> \<le> a" using floor_log2_bounds [OF a0] by (simp add: e_def)
    finally show ?thesis using small by simp
  next
    case False
    with why have q: "q = 971" and m: "m = 2 ^ 53" by simp_all
    have at: "a = t * pow2 q" using pow2_cancel [of q] by (simp add: t_def mult.assoc)
    from round_half_even_nearest [of t] have "of_int m - 1 / 2 \<le> t"
      unfolding m_def by linarith
    then have "(of_int m - 1 / 2) * pow2 q \<le> t * pow2 q"
      using pow2_pos [of q] by (intro mult_right_mono) simp_all
    moreover have "(of_int m - 1 / 2) * pow2 q = pow2 53 * pow2 971 - pow2 (- 1) * pow2 971"
      by (simp add: q m pow2_def left_diff_distrib)
    moreover have "pow2 53 * pow2 971 = pow2 1024" using pow2_add [of 53 971] by simp
    moreover have "pow2 (- 1) * pow2 971 = pow2 970" using pow2_add [of "- 1" 971] by simp
    ultimately show ?thesis by (simp add: at)
  qed
  from inf have "round_binary64 x = PosInfinity \<longleftrightarrow> 0 < x"
    by (simp add: signed_infinity_def)
  with big show ?thesis by (simp add: a_def)
qed

lemma round_binary64_not_NaN: "round_binary64 x \<noteq> NaN"
  by (simp add: round_binary64_def signed_infinity_def Let_def)

lemma positive_times_1000: "js_gt n (Finite 0) \<Longrightarrow> js_times n (Finite 1000) \<noteq> NaN"
  by (cases n) (simp_all add: round_binary64_not_NaN)

text \<open>
  The rounding at work: 42 seconds are 42000 ms exactly; the binary64 value nearest to
  1.005 times 1000 is the binary64 value below 1005, printed 1004.9999999999999; and
  \<open>2 ^ 1023\<close> times 1000 is beyond the finite range.
\<close>

lemma times_42: "js_times (Finite 42) (Finite 1000) = Finite 42000"
  by code_simp

lemma times_1005:
  "js_times (Finite (1131529406376837 / 2 ^ 50)) (Finite 1000) = Finite (8840073487319039 / 2 ^ 43)"
  by code_simp

lemma bitlen_1000: "bitlen 1000 = 10"
  by code_simp

lemma times_overflow: "js_times (Finite (2 ^ 1023)) (Finite 1000) = PosInfinity"
proof -
  have "(2::rat) ^ 1023 * 1000 = of_int (1000 * 2 ^ 1023)" by simp
  then have fl: "\<lfloor>(2::rat) ^ 1023 * 1000\<rfloor> = 1000 * 2 ^ 1023" by (simp only: floor_of_int)
  have bl: "bitlen (1000 * 2 ^ 1023) = 1033"
    using bitlen_pow2 [of 1000 1023] bitlen_1000 by simp
  have ge: "(1::rat) \<le> 2 ^ 1023 * 1000" by simp
  have "floor_log2 (2 ^ 1023 * 1000) = 1032"
    unfolding floor_log2_def using fl bl ge by simp
  then show ?thesis
    by (simp add: round_binary64_def signed_infinity_def Let_def)
qed

lemma members_nextInterval_cases:
  "members_nextInterval r =
     (if ok r then
        (case data r of
           Some (JObject kvs) \<Rightarrow>
             (case map_of kvs ''nextCheckInSeconds'' of
                Some (JNumber n) \<Rightarrow>
                  if js_gt n (Finite 0) then js_times n (Finite 1000) else DEFAULT_MEMBERS_INTERVAL
              | _ \<Rightarrow> DEFAULT_MEMBERS_INTERVAL)
         | _ \<Rightarrow> DEFAULT_MEMBERS_INTERVAL)
      else DEFAULT_MEMBERS_INTERVAL)"
proof (cases "data r")
  case None
  then show ?thesis by (simp add: members_nextInterval_def data_truthy_def)
next
  case (Some d)
  then show ?thesis
    by (cases d) (simp_all add: members_nextInterval_def data_truthy_def
        split: option.splits json_value.splits)
qed

lemma syncMembers_trace:
  "\<exists>log. trace (syncMembers env url st0) =
       trace (snd (postWithRetry env url ''members'' st0)) @ log @
         [SetTimeout_syncMembers (members_nextInterval (fst (postWithRetry env url ''members'' st0)))] \<and>
     (log = [] \<or> log = [Log_members_synced (members_nextInterval (fst (postWithRetry env url ''members'' st0)))])"
  by (cases "postWithRetry env url ''members'' st0") (simp add: syncMembers_def emit_def Let_def)

section \<open>The escalated warning\<close>

text \<open>
  Claim C1 says that every increment of the counter that brings it to the threshold
  (5) or beyond is followed at once by the escalated warning, also on a non-retryable
  rejection. The two branches that increment the counter differ: with the counter at 4,
  a sequence that exhausts its three tries on status 500 logs the warning, and a
  sequence that is rejected with status 401 brings the counter to 5 as well and logs
  only the ordinary line.
\<close>

theorem nonretryable_rejection_at_threshold_logs_no_warning:
  "postWithRetry
     (tries (Resolves \<lparr>status = 401, statusText = ''Unauthorized'', json = Inl ''''\<rparr>)
            (Rejects ''unused'') (Rejects ''unused''))
     ''http://dash/sync-orders'' ''orders'' \<lparr>count = 4, trace = []\<rparr>
   = (\<lparr>ok = False, data = None\<rparr>,
      \<lparr>count = 5,
       trace = [Fetch ''http://dash/sync-orders'' ''orders'',
                Error_not_retryable ''orders'' 401 ''Unauthorized'']\<rparr>) \<and>
   postWithRetry
     (tries (Resolves \<lparr>status = 500, statusText = ''Internal Server Error'', json = Inl ''''\<rparr>)
            (Resolves \<lparr>status = 500, statusText = ''Internal Server Error'', json = Inl ''''\<rparr>)
            (Resolves \<lparr>status = 500, statusText = ''Internal Server Error'', json = Inl ''''\<rparr>))
     ''http://dash/sync-orders'' ''orders'' \<lparr>count = 4, trace = []\<rparr>
   = (\<lparr>ok = False, data = None\<rparr>,
      \<lparr>count = 5,
       trace = [Fetch ''http://dash/sync-orders'' ''orders'',
                Error_retrying ''orders'' 1 3 2 (HttpError 500 ''Internal Server Error''),
                Sleep 2000,
                Fetch ''http://dash/sync-orders'' ''orders'',
                Error_retrying ''orders'' 2 3 4 (HttpError 500 ''Internal Server Error''),
                Sleep 4000,
                Fetch ''http://dash/sync-orders'' ''orders'',
                Error_failed_after ''orders'' 3 (HttpError 500 ''Internal Server Error''),
                Error_warning ''orders'' 5]\<rparr>)"
  by (simp add: run_defs)

section \<open>A successful response\<close>

text \<open>
  Claim C2 says that, once a try receives a response with an ok status, an absent or
  unparseable body is tolerated: Success with no data, the counter at 0, no further
  try. The code resets the counter as for a success and only then awaits
  \<open>response.json()\<close>, inside the \<open>try\<close> block, so a rejection of the body read reaches
  the \<open>catch\<close> block like a failed request: three responses with status 200 and an
  empty body make three requests with two waits between them, and the call returns
  \<open>{ ok: false }\<close> with the counter at 1.
\<close>

theorem ok_response_with_unparseable_body_is_retried:
  "postWithRetry
     (tries (Resolves \<lparr>status = 200, statusText = ''OK'', json = Inl ''Unexpected end of JSON input''\<rparr>)
            (Resolves \<lparr>status = 200, statusText = ''OK'', json = Inl ''Unexpected end of JSON input''\<rparr>)
            (Resolves \<lparr>status = 200, statusText = ''OK'', json = Inl ''Unexpected end of JSON input''\<rparr>))
     ''http://dash/sync-orders'' ''orders'' \<lparr>count = 0, trace = []\<rparr>
   = (\<lparr>ok = False, data = None\<rparr>,
      \<lparr>count = 1,
       trace = [Fetch ''http://dash/sync-orders'' ''orders'',
                Error_retrying ''orders'' 1 3 2 (JsonRejected ''Unexpected end of JSON input''),
                Sleep 2000,
                Fetch ''http://dash/sync-orders'' ''orders'',
                Error_retrying ''orders'' 2 3 4 (JsonRejected ''Unexpected end of JSON input''),
                Sleep 4000,
                Fetch ''http://dash/sync-orders'' ''orders'',
                Error_failed_after ''orders'' 3 (JsonRejected ''Unexpected end of JSON input'')]\<rparr>)"
  by (simp add: run_defs)

text \<open>
  When the body does parse, the loop ends as that claim says: in every call in which
  try \<open>k\<close> is made (each earlier try threw) and receives a response with an ok status
  whose body parses to \<open>d\<close>, the call returns \<open>{ ok: true, data: d }\<close> with the
  counter at 0, and the fetch of try \<open>k\<close> is its last effect: \<open>k\<close> requests in all, no
  further try. \<open>st_k\<close> is the state in which try \<open>k\<close> begins.
\<close>

theorem parsed_ok_response_ends_sequence:
  assumes "1 \<le> k" and "k \<le> MAX_RETRIES"
    and "\<forall>j. 1 \<le> j \<and> j < k \<longrightarrow> throws (env j)"
    and "env k = Resolves r" and "response_ok r" and "json r = Inr d"
  shows "\<exists>st_k st'.
           postWithRetry env url label st = postWithRetry_loop env url label k st_k \<and>
           postWithRetry env url label st = (\<lparr>ok = True, data = Some d\<rparr>, st') \<and>
           count st' = 0 \<and>
           trace st' = trace st_k @ [Fetch url label] \<and>
           fetches (trace st') = fetches (trace st) + k"
proof -
  obtain st_k where k: "postWithRetry env url label st = postWithRetry_loop env url label k st_k"
    "fetches (trace st_k) = fetches (trace st) + (k - 1)"
    using reaches_try [OF assms(1-3)] by blast
  let ?st' = "st_k\<lparr>count := 0, trace := trace st_k @ [Fetch url label]\<rparr>"
  have "postWithRetry_loop env url label k st_k = (\<lparr>ok = True, data = Some d\<rparr>, ?st')"
    using assms by (simp add: loop_enter body_success)
  with k assms(1) have
    "postWithRetry env url label st = postWithRetry_loop env url label k st_k \<and>
     postWithRetry env url label st = (\<lparr>ok = True, data = Some d\<rparr>, ?st') \<and>
     count ?st' = 0 \<and> trace ?st' = trace st_k @ [Fetch url label] \<and>
     fetches (trace ?st') = fetches (trace st) + k"
    by simp
  then show ?thesis by blast
qed

theorem parsed_ok_response_ends_sequence_witness:
  "ok (fst (postWithRetry
       (tries (Rejects ''fetch failed'')
              (Resolves \<lparr>status = 200, statusText = ''OK'',
                 json = Inr (JObject [(''nextCheckInSeconds'', JNumber (Finite 42))])\<rparr>)
              (Rejects ''unused''))
       ''http://dash/sync-members'' ''members'' \<lparr>count = 7, trace = []\<rparr>)) \<and>
   data (fst (postWithRetry
       (tries (Rejects ''fetch failed'')
              (Resolves \<lparr>status = 200, statusText = ''OK'',
                 json = Inr (JObject [(''nextCheckInSeconds'', JNumber (Finite 42))])\<rparr>)
              (Rejects ''unused''))
       ''http://dash/sync-members'' ''members'' \<lparr>count = 7, trace = []\<rparr>))
     = Some (JObject [(''nextCheckInSeconds'', JNumber (Finite 42))]) \<and>
   count (snd (postWithRetry
       (tries (Rejects ''fetch failed'')
              (Resolves \<lparr>status = 200, statusText = ''OK'',
                 json = Inr (JObject [(''nextCheckInSeconds'', JNumber (Finite 42))])\<rparr>)
              (Rejects ''unused''))
       ''http://dash/sync-members'' ''members'' \<lparr>count = 7, trace = []\<rparr>)) = 0 \<and>
   fetches (trace (snd (postWithRetry
       (tries (Rejects ''fetch failed'')
              (Resolves \<lparr>status = 200, statusText = ''OK'',
                 json = Inr (JObject [(''nextCheckInSeconds'', JNumber (Finite 42))])\<rparr>)
              (Rejects ''unused''))
       ''http://dash/sync-members'' ''members'' \<lparr>count = 7, trace = []\<rparr>))) = 2"
proof -
  let ?r = "\<lparr>status = 200, statusText = ''OK'',
              json = Inr (JObject [(''nextCheckInSeconds'', JNumber (Finite 42))])\<rparr>"
  let ?env = "tries (Rejects ''fetch failed'') (Resolves ?r) (Rejects ''unused'')"
  have h1: "(1::nat) \<le> 2" by simp
  have h2: "2 \<le> MAX_RETRIES" by (simp add: MAX_RETRIES_def)
  have h3: "\<forall>j. 1 \<le> j \<and> j < 2 \<longrightarrow> throws (?env j)"
  proof (intro allI impI)
    fix j :: nat
    assume "1 \<le> j \<and> j < 2"
    then have "j = 1" by arith
    then show "throws (?env j)" by (simp add: tries_def)
  qed
  have h4: "?env 2 = Resolves ?r" by (simp add: tries_def)
  have h5: "response_ok ?r" by (simp add: response_ok_def)
  have h6: "json ?r = Inr (JObject [(''nextCheckInSeconds'', JNumber (Finite 42))])" by simp
  from parsed_ok_response_ends_sequence [of 2 ?env ?r _ "''http://dash/sync-members''" "''members''"
      "\<lparr>count = 7, trace = []\<rparr>", OF h1 h2 h3 h4 h5 h6]
  obtain st' where
    "postWithRetry ?env ''http://dash/sync-members'' ''members'' \<lparr>count = 7, trace = []\<rparr>
       = (\<lparr>ok = True, data = Some (JObject [(''nextCheckInSeconds'', JNumber (Finite 42))])\<rparr>, st')"
    and "count st' = 0"
    and "fetches (trace st') = fetches (trace \<lparr>count = 7, trace = []\<rparr>) + 2"
    by blast
  then show ?thesis by simp
qed

section \<open>The failure counter\<close>

text \<open>
  Claim C3 says that the counter is reset only by a successful attempt, goes up by
  exactly 1 on a failed sequence and is left alone by the retries inside a sequence.
  The reset is executed before the body is parsed. With the counter at 4 and three
  responses of status 200 whose body does not parse, the first try already sets the
  counter to 0 and is then retried, and the sequence, which fails, ends with the
  counter at 1 and not at 5.
\<close>

theorem unparseable_ok_responses_lose_failure_count:
  "loop_body
     (tries (Resolves \<lparr>status = 200, statusText = ''OK'', json = Inl ''Unexpected end of JSON input''\<rparr>)
            (Resolves \<lparr>status = 200, statusText = ''OK'', json = Inl ''Unexpected end of JSON input''\<rparr>)
            (Resolves \<lparr>status = 200, statusText = ''OK'', json = Inl ''Unexpected end of JSON input''\<rparr>))
     ''http://dash/sync-members'' ''members'' 1 \<lparr>count = 4, trace = []\<rparr>
   = Next \<lparr>count = 0,
       trace = [Fetch ''http://dash/sync-members'' ''members'',
                Error_retrying ''members'' 1 3 2 (JsonRejected ''Unexpected end of JSON input''),
                Sleep 2000]\<rparr> \<and>
   postWithRetry
     (tries (Resolves \<lparr>status = 200, statusText = ''OK'', json = Inl ''Unexpected end of JSON input''\<rparr>)
            (Resolves \<lparr>status = 200, statusText = ''OK'', json = Inl ''Unexpected end of JSON input''\<rparr>)
            (Resolves \<lparr>status = 200, statusText = ''OK'', json = Inl ''Unexpected end of JSON input''\<rparr>))
     ''http://dash/sync-members'' ''members'' \<lparr>count = 4, trace = []\<rparr>
   = (\<lparr>ok = False, data = None\<rparr>,
      \<lparr>count = 1,
       trace = [Fetch ''http://dash/sync-members'' ''members'',
                Error_retrying ''members'' 1 3 2 (JsonRejected ''Unexpected end of JSON input''),
                Sleep 2000,
                Fetch ''http://dash/sync-members'' ''members'',
                Error_retrying ''members'' 2 3 4 (JsonRejected ''Unexpected end of JSON input''),
                Sleep 4000,
                Fetch ''http://dash/sync-members'' ''members'',
                Error_failed_after ''members'' 3 (JsonRejected ''Unexpected end of JSON input'')]\<rparr>)"
  by (simp add: run_defs)

section \<open>A non-retryable status\<close>

text \<open>
  Claim C4, as stated, has exactly one request and no wait in the cycle whenever a
  status of the non-retryable set is received, on any attempt. Received on the second
  try, after a network error on the first, status 429 ends a cycle of two requests
  with one wait of 2000 ms between them.
\<close>

theorem nonretryable_on_second_try_two_requests_one_wait:
  "fetches (trace (snd (postWithRetry
       (tries (Rejects ''fetch failed'')
              (Resolves \<lparr>status = 429, statusText = ''Too Many Requests'', json = Inl ''''\<rparr>)
              (Rejects ''unused''))
       ''http://dash/sync-orders'' ''orders'' \<lparr>count = 0, trace = []\<rparr>))) = 2 \<and>
   trace (snd (postWithRetry
       (tries (Rejects ''fetch failed'')
              (Resolves \<lparr>status = 429, statusText = ''Too Many Requests'', json = Inl ''''\<rparr>)
              (Rejects ''unused''))
       ''http://dash/sync-orders'' ''orders'' \<lparr>count = 0, trace = []\<rparr>))
     = [Fetch ''http://dash/sync-orders'' ''orders'',
        Error_retrying ''orders'' 1 3 2 (FetchRejected ''fetch failed''),
        Sleep 2000,
        Fetch ''http://dash/sync-orders'' ''orders'',
        Error_not_retryable ''orders'' 429 ''Too Many Requests'']"
  by (simp add: run_defs)

text \<open>
  Claim C4, amended: when try \<open>k\<close> is made (each earlier try threw) and receives a
  status of the non-retryable set, its request is the last of the cycle and nothing
  but the not-retryable line follows it: the cycle has \<open>k\<close> requests and the \<open>k - 1\<close>
  waits of the earlier retries (one request and no wait when \<open>k = 1\<close>), the counter is
  one more than when try \<open>k\<close> began (one more than at the call when every earlier try
  was a retryable failure), and \<open>{ ok: false }\<close> is returned. \<open>st_k\<close> is the state in
  which try \<open>k\<close> begins.
\<close>

theorem nonretryable_response_ends_sequence:
  assumes "1 \<le> k" and "k \<le> MAX_RETRIES"
    and "\<forall>j. 1 \<le> j \<and> j < k \<longrightarrow> throws (env j)"
    and "env k = Resolves r" and "status r \<in> NON_RETRYABLE_STATUSES"
  shows "\<exists>st_k st'.
           postWithRetry env url label st = postWithRetry_loop env url label k st_k \<and>
           postWithRetry env url label st = (\<lparr>ok = False, data = None\<rparr>, st') \<and>
           count st' = count st_k + 1 \<and>
           ((\<forall>j. 1 \<le> j \<and> j < k \<longrightarrow> retryable_failure (env j)) \<longrightarrow> count st' = count st + 1) \<and>
           trace st' = trace st_k @
             [Fetch url label, Error_not_retryable label (status r) (statusText r)] \<and>
           fetches (trace st') = fetches (trace st) + k \<and>
           waits (trace st') = waits (trace st) + (k - 1)"
proof -
  obtain st_k where k: "postWithRetry env url label st = postWithRetry_loop env url label k st_k"
    "fetches (trace st_k) = fetches (trace st) + (k - 1)"
    "waits (trace st_k) = waits (trace st) + (k - 1)"
    "(\<forall>j. 1 \<le> j \<and> j < k \<longrightarrow> retryable_failure (env j)) \<longrightarrow> count st_k = count st"
    using reaches_try [OF assms(1-3)] by blast
  let ?st' = "st_k\<lparr>count := count st_k + 1,
     trace := trace st_k @ [Fetch url label, Error_not_retryable label (status r) (statusText r)]\<rparr>"
  have "postWithRetry_loop env url label k st_k = (\<lparr>ok = False, data = None\<rparr>, ?st')"
    using assms by (simp add: loop_enter body_nonretryable)
  with k assms(1) have
    "postWithRetry env url label st = postWithRetry_loop env url label k st_k \<and>
     postWithRetry env url label st = (\<lparr>ok = False, data = None\<rparr>, ?st') \<and>
     count ?st' = count st_k + 1 \<and>
     ((\<forall>j. 1 \<le> j \<and> j < k \<longrightarrow> retryable_failure (env j)) \<longrightarrow> count ?st' = count st + 1) \<and>
     trace ?st' = trace st_k @
       [Fetch url label, Error_not_retryable label (status r) (statusText r)] \<and>
     fetches (trace ?st') = fetches (trace st) + k \<and>
     waits (trace ?st') = waits (trace st) + (k - 1)"
    by simp
  then show ?thesis by blast
qed

theorem nonretryable_response_ends_sequence_witness:
  "\<not> ok (fst (postWithRetry
       (tries (Resolves \<lparr>status = 403, statusText = ''Forbidden'', json = Inl ''''\<rparr>)
              (Rejects ''unused'') (Rejects ''unused''))
       ''http://dash/sync-orders'' ''orders'' \<lparr>count = 2, trace = []\<rparr>)) \<and>
   count (snd (postWithRetry
       (tries (Resolves \<lparr>status = 403, statusText = ''Forbidden'', json = Inl ''''\<rparr>)
              (Rejects ''unused'') (Rejects ''unused''))
       ''http://dash/sync-orders'' ''orders'' \<lparr>count = 2, trace = []\<rparr>)) = 3 \<and>
   fetches (trace (snd (postWithRetry
       (tries (Resolves \<lparr>status = 403, statusText = ''Forbidden'', json = Inl ''''\<rparr>)
              (Rejects ''unused'') (Rejects ''unused''))
       ''http://dash/sync-orders'' ''orders'' \<lparr>count = 2, trace = []\<rparr>))) = 1 \<and>
   waits (trace (snd (postWithRetry
       (tries (Resolves \<lparr>status = 403, statusText = ''Forbidden'', json = Inl ''''\<rparr>)
              (Rejects ''unused'') (Rejects ''unused''))
       ''http://dash/sync-orders'' ''orders'' \<lparr>count = 2, trace = []\<rparr>))) = 0"
proof -
  let ?r = "\<lparr>status = 403, statusText = ''Forbidden'', json = Inl ''''\<rparr>"
  let ?env = "tries (Resolves ?r) (Rejects ''unused'') (Rejects ''unused'')"
  have h1: "(1::nat) \<le> 1" by simp
  have h2: "1 \<le> MAX_RETRIES" by (simp add: MAX_RETRIES_def)
  have h3: "\<forall>j. 1 \<le> j \<and> j < 1 \<longrightarrow> throws (?env j)" by simp
  have h4: "?env 1 = Resolves ?r" by (simp add: tries_def)
  have h5: "status ?r \<in> NON_RETRYABLE_STATUSES" by (simp add: NON_RETRYABLE_STATUSES_def)
  have h6: "\<forall>j. 1 \<le> j \<and> j < 1 \<longrightarrow> retryable_failure (?env j)" by simp
  from nonretryable_response_ends_sequence [of 1 ?env ?r "''http://dash/sync-orders''" "''orders''"
      "\<lparr>count = 2, trace = []\<rparr>", OF h1 h2 h3 h4 h5]
  obtain st' where
    "postWithRetry ?env ''http://dash/sync-orders'' ''orders'' \<lparr>count = 2, trace = []\<rparr>
       = (\<lparr>ok = False, data = None\<rparr>, st')"
    and "(\<forall>j. 1 \<le> j \<and> j < 1 \<longrightarrow> retryable_failure (?env j)) \<longrightarrow>
           count st' = count \<lparr>count = 2, trace = []\<rparr> + 1"
    and "fetches (trace st') = fetches (trace \<lparr>count = 2, trace = []\<rparr>) + 1"
    and "waits (trace st') = waits (trace \<lparr>count = 2, trace = []\<rparr>) + (1 - 1)"
    by blast
  with h6 show ?thesis by simp
qed


section \<open>Retryable failures\<close>

text \<open>
  Claim C5: a retryable failing outcome (a network error, a timeout, a failing status
  outside the non-retryable set) on try \<open>k\<close>. For \<open>1 \<le> k < 3\<close> the loop logs the retry,
  sleeps \<open>2 ^ k\<close> seconds and goes on with try \<open>k + 1\<close>, whose fetch is the next effect;
  the counter is untouched. On try 3 there is no sleep: the counter goes up by 1, the
  failure is logged (and the warning, at 5 or more), and \<open>{ ok: false }\<close> is returned.
  The statement holds in whatever state \<open>st\<close> try \<open>k\<close> begins.
\<close>

theorem retryable_failure_backs_off_then_gives_up:
  assumes "retryable_failure (env k)"
  shows "(1 \<le> k \<and> k < MAX_RETRIES \<longrightarrow>
            postWithRetry_loop env url label k st =
              postWithRetry_loop env url label (k + 1)
                (st\<lparr>trace := trace st @ [Fetch url label,
                   Error_retrying label k MAX_RETRIES (2 ^ k) (thrown_by (env k)),
                   Sleep (2 ^ k * 1000)]\<rparr>) \<and>
            (\<exists>rest. trace (snd (postWithRetry_loop env url label k st)) =
               trace st @ [Fetch url label,
                   Error_retrying label k MAX_RETRIES (2 ^ k) (thrown_by (env k)),
                   Sleep (2 ^ k * 1000), Fetch url label] @ rest)) \<and>
         (k = MAX_RETRIES \<longrightarrow>
            postWithRetry_loop env url label k st =
              (\<lparr>ok = False, data = None\<rparr>,
               st\<lparr>count := count st + 1,
                  trace := trace st @ [Fetch url label,
                    Error_failed_after label MAX_RETRIES (thrown_by (env k))] @
                    (if CONSECUTIVE_FAILURE_THRESHOLD \<le> count st + 1
                     then [Error_warning label (count st + 1)] else [])\<rparr>))"
proof (intro conjI impI)
  assume k: "1 \<le> k \<and> k < MAX_RETRIES"
  let ?st = "st\<lparr>trace := trace st @ [Fetch url label,
                   Error_retrying label k MAX_RETRIES (2 ^ k) (thrown_by (env k)),
                   Sleep (2 ^ k * 1000)]\<rparr>"
  from k assms show step: "postWithRetry_loop env url label k st =
      postWithRetry_loop env url label (k + 1) ?st"
    by (simp add: loop_enter body_retry)
  from k have "k + 1 \<le> MAX_RETRIES" by simp
  from loop_begins_with_fetch [OF this, of env url label ?st] step
  show "\<exists>rest. trace (snd (postWithRetry_loop env url label k st)) =
               trace st @ [Fetch url label,
                   Error_retrying label k MAX_RETRIES (2 ^ k) (thrown_by (env k)),
                   Sleep (2 ^ k * 1000), Fetch url label] @ rest"
    by simp
next
  assume "k = MAX_RETRIES"
  with assms show "postWithRetry_loop env url label k st =
              (\<lparr>ok = False, data = None\<rparr>,
               st\<lparr>count := count st + 1,
                  trace := trace st @ [Fetch url label,
                    Error_failed_after label MAX_RETRIES (thrown_by (env k))] @
                    (if CONSECUTIVE_FAILURE_THRESHOLD \<le> count st + 1
                     then [Error_warning label (count st + 1)] else [])\<rparr>)"
    by (simp add: loop_enter body_exhausted)
qed

theorem retryable_failure_backs_off_then_gives_up_witness:
  "postWithRetry
     (tries (Rejects ''fetch failed'')
            (Resolves \<lparr>status = 500, statusText = ''Internal Server Error'', json = Inl ''''\<rparr>)
            (Rejects ''The operation timed out.''))
     ''http://dash/sync-members'' ''members'' \<lparr>count = 2, trace = []\<rparr>
   = (\<lparr>ok = False, data = None\<rparr>,
      \<lparr>count = 3,
       trace = [Fetch ''http://dash/sync-members'' ''members'',
                Error_retrying ''members'' 1 3 2 (FetchRejected ''fetch failed''),
                Sleep 2000,
                Fetch ''http://dash/sync-members'' ''members'',
                Error_retrying ''members'' 2 3 4 (HttpError 500 ''Internal Server Error''),
                Sleep 4000,
                Fetch ''http://dash/sync-members'' ''members'',
                Error_failed_after ''members'' 3 (FetchRejected ''The operation timed out.'')]\<rparr>)"
proof -
  let ?env = "tries (Rejects ''fetch failed'')
            (Resolves \<lparr>status = 500, statusText = ''Internal Server Error'', json = Inl ''''\<rparr>)
            (Rejects ''The operation timed out.'')"
  let ?u = "''http://dash/sync-members''"
  let ?st1 = "\<lparr>count = 2,
       trace = [Fetch ?u ''members'',
                Error_retrying ''members'' 1 3 2 (FetchRejected ''fetch failed''),
                Sleep 2000]\<rparr>"
  let ?st2 = "\<lparr>count = 2,
       trace = [Fetch ?u ''members'',
                Error_retrying ''members'' 1 3 2 (FetchRejected ''fetch failed''),
                Sleep 2000,
                Fetch ?u ''members'',
                Error_retrying ''members'' 2 3 4 (HttpError 500 ''Internal Server Error''),
                Sleep 4000]\<rparr>"
  have r1: "retryable_failure (?env 1)" by (simp add: tries_def)
  have r2: "retryable_failure (?env 2)"
    by (simp add: tries_def response_ok_def NON_RETRYABLE_STATUSES_def)
  have r3: "retryable_failure (?env 3)" by (simp add: tries_def)
  have s1: "postWithRetry_loop ?env ?u ''members'' 1 \<lparr>count = 2, trace = []\<rparr> =
            postWithRetry_loop ?env ?u ''members'' 2 ?st1"
    using retryable_failure_backs_off_then_gives_up
            [of ?env 1 ?u "''members''" "\<lparr>count = 2, trace = []\<rparr>", OF r1]
    by (simp add: MAX_RETRIES_def tries_def numeral_2_eq_2 [symmetric])
  have s2: "postWithRetry_loop ?env ?u ''members'' 2 ?st1 =
            postWithRetry_loop ?env ?u ''members'' 3 ?st2"
    using retryable_failure_backs_off_then_gives_up [of ?env 2 ?u "''members''" ?st1, OF r2]
    by (simp add: MAX_RETRIES_def tries_def)
  have s3: "postWithRetry_loop ?env ?u ''members'' 3 ?st2 =
            (\<lparr>ok = False, data = None\<rparr>,
             \<lparr>count = 3, trace = trace ?st2 @
                [Fetch ?u ''members'',
                 Error_failed_after ''members'' 3 (FetchRejected ''The operation timed out.'')]\<rparr>)"
    using retryable_failure_backs_off_then_gives_up [of ?env 3 ?u "''members''" ?st2, OF r3]
    by (simp add: MAX_RETRIES_def CONSECUTIVE_FAILURE_THRESHOLD_def tries_def)
  show ?thesis unfolding postWithRetry_def s1 s2 s3 by simp
qed

section \<open>Termination and the bound on requests\<close>

text \<open>
  Claim C9: for every url, label, counter state and every sequence of outcomes,
  \<open>postWithRetry\<close> returns a result (the model is a total function: the loop variable
  rises towards \<open>MAX_RETRIES\<close>) after at least one and at most \<open>MAX_RETRIES\<close> fetches;
  the body of the loop returns on the last attempt whatever happens in it; and once
  \<open>attempt\<close> is beyond \<open>MAX_RETRIES\<close> the statement after the loop returns
  \<open>{ ok: false }\<close> with no effect.
\<close>

theorem postWithRetry_at_most_MAX_RETRIES_fetches:
  "(\<exists>r st'. postWithRetry env url label st = (r, st') \<and>
       fetches (trace st) + 1 \<le> fetches (trace st') \<and>
       fetches (trace st') \<le> fetches (trace st) + MAX_RETRIES) \<and>
   (\<exists>r st'. loop_body env url label MAX_RETRIES st = Return r st') \<and>
   (MAX_RETRIES < attempt \<longrightarrow>
      postWithRetry_loop env url label attempt st = (\<lparr>ok = False, data = None\<rparr>, st))"
proof (intro conjI impI)
  have one: "1 \<le> MAX_RETRIES" by (simp add: MAX_RETRIES_def)
  have "fetches (trace st) + 1 \<le> fetches (trace (snd (postWithRetry env url label st)))"
    unfolding postWithRetry_def by (rule loop_fetches_lower [OF one])
  moreover have
    "fetches (trace (snd (postWithRetry env url label st))) \<le> fetches (trace st) + MAX_RETRIES"
    unfolding postWithRetry_def using loop_fetches_upper [of 1 env url label st] by simp
  ultimately show "\<exists>r st'. postWithRetry env url label st = (r, st') \<and>
       fetches (trace st) + 1 \<le> fetches (trace st') \<and>
       fetches (trace st') \<le> fetches (trace st) + MAX_RETRIES"
    by (cases "postWithRetry env url label st") simp
next
  show "\<exists>r st'. loop_body env url label MAX_RETRIES st = Return r st'"
    by (rule last_body_returns)
next
  assume "MAX_RETRIES < attempt"
  then show "postWithRetry_loop env url label attempt st = (\<lparr>ok = False, data = None\<rparr>, st)"
    by (rule loop_exit)
qed

theorem postWithRetry_at_most_MAX_RETRIES_fetches_witness:
  "1 \<le> fetches (trace (snd (postWithRetry
       (tries (Rejects ''fetch failed'') (Rejects ''fetch failed'') (Rejects ''fetch failed''))
       ''http://dash/sync-orders'' ''orders'' \<lparr>count = 0, trace = []\<rparr>))) \<and>
   fetches (trace (snd (postWithRetry
       (tries (Rejects ''fetch failed'') (Rejects ''fetch failed'') (Rejects ''fetch failed''))
       ''http://dash/sync-orders'' ''orders'' \<lparr>count = 0, trace = []\<rparr>))) \<le> 3 \<and>
   postWithRetry_loop
       (tries (Rejects ''fetch failed'') (Rejects ''fetch failed'') (Rejects ''fetch failed''))
       ''http://dash/sync-orders'' ''orders'' 4 \<lparr>count = 0, trace = []\<rparr>
     = (\<lparr>ok = False, data = None\<rparr>, \<lparr>count = 0, trace = []\<rparr>)"
proof -
  have h: "MAX_RETRIES < 4" by (simp add: MAX_RETRIES_def)
  from postWithRetry_at_most_MAX_RETRIES_fetches
    [of "tries (Rejects ''fetch failed'') (Rejects ''fetch failed'') (Rejects ''fetch failed'')"
        "''http://dash/sync-orders''" "''orders''" "\<lparr>count = 0, trace = []\<rparr>" 4] h
  show ?thesis by (auto simp: MAX_RETRIES_def)
qed

section \<open>The adaptive interval\<close>

text \<open>
  Claim C6: a run of \<open>syncMembers\<close> ends by arming one timer, after at most the
  success line, and its delay is \<open>members_nextInterval\<close> of the result of
  \<open>postWithRetry\<close>. For any result \<open>r\<close>: when \<open>r\<close> is a success whose data is an object
  with a property \<open>nextCheckInSeconds\<close> that is a number greater than 0, the delay is
  that number times 1000, the product being the binary64 product that \<open>*\<close> computes; in
  every other case it is 300000.
\<close>

theorem syncMembers_schedules_next_run:
  "(\<exists>log. trace (syncMembers env url st0) =
        trace (snd (postWithRetry env url ''members'' st0)) @ log @
          [SetTimeout_syncMembers (members_nextInterval (fst (postWithRetry env url ''members'' st0)))] \<and>
      (log = [] \<or>
       log = [Log_members_synced (members_nextInterval (fst (postWithRetry env url ''members'' st0)))])) \<and>
   (ok r \<and> data r = Some (JObject kvs) \<and>
      map_of kvs ''nextCheckInSeconds'' = Some (JNumber n) \<and> js_gt n (Finite 0) \<longrightarrow>
      members_nextInterval r = js_times n (Finite 1000)) \<and>
   (\<not> (\<exists>kvs' n'. ok r \<and> data r = Some (JObject kvs') \<and>
          map_of kvs' ''nextCheckInSeconds'' = Some (JNumber n') \<and> js_gt n' (Finite 0)) \<longrightarrow>
      members_nextInterval r = Finite 300000)"
proof (intro conjI impI)
  show "\<exists>log. trace (syncMembers env url st0) =
        trace (snd (postWithRetry env url ''members'' st0)) @ log @
          [SetTimeout_syncMembers (members_nextInterval (fst (postWithRetry env url ''members'' st0)))] \<and>
      (log = [] \<or>
       log = [Log_members_synced (members_nextInterval (fst (postWithRetry env url ''members'' st0)))])"
    by (rule syncMembers_trace)
next
  assume "ok r \<and> data r = Some (JObject kvs) \<and>
      map_of kvs ''nextCheckInSeconds'' = Some (JNumber n) \<and> js_gt n (Finite 0)"
  then show "members_nextInterval r = js_times n (Finite 1000)"
    by (simp add: members_nextInterval_cases)
next
  assume none: "\<not> (\<exists>kvs' n'. ok r \<and> data r = Some (JObject kvs') \<and>
          map_of kvs' ''nextCheckInSeconds'' = Some (JNumber n') \<and> js_gt n' (Finite 0))"
  then show "members_nextInterval r = Finite 300000"
    by (auto simp: members_nextInterval_cases DEFAULT_MEMBERS_INTERVAL_def
             split: option.splits json_value.splits)
qed

theorem syncMembers_schedules_next_run_witness:
  "members_nextInterval
     \<lparr>ok = True, data = Some (JObject [(''nextCheckInSeconds'', JNumber (Finite 42))])\<rparr>
     = Finite 42000 \<and>
   members_nextInterval
     \<lparr>ok = True, data = Some (JObject [(''nextCheckInSeconds'', JNumber (Finite (- 5)))])\<rparr>
     = Finite 300000 \<and>
   members_nextInterval
     \<lparr>ok = True, data = Some (JObject [(''nextCheckInSeconds'', JString ''42'')])\<rparr>
     = Finite 300000 \<and>
   members_nextInterval \<lparr>ok = True, data = Some (JObject [(''synced'', JNumber (Finite 3))])\<rparr>
     = Finite 300000 \<and>
   members_nextInterval \<lparr>ok = False, data = None\<rparr> = Finite 300000 \<and>
   members_nextInterval
     \<lparr>ok = True, data = Some (JObject
        [(''nextCheckInSeconds'', JNumber (Finite (1131529406376837 / 2 ^ 50)))])\<rparr>
     = Finite (8840073487319039 / 2 ^ 43) \<and>
   members_nextInterval
     \<lparr>ok = True, data = Some (JObject [(''nextCheckInSeconds'', JNumber (Finite (2 ^ 1023)))])\<rparr>
     = PosInfinity"
proof -
  let ?r1 = "\<lparr>ok = True, data = Some (JObject [(''nextCheckInSeconds'', JNumber (Finite 42))])\<rparr>"
  let ?r2 = "\<lparr>ok = True, data = Some (JObject [(''nextCheckInSeconds'', JNumber (Finite (- 5)))])\<rparr>"
  let ?r3 = "\<lparr>ok = True, data = Some (JObject [(''nextCheckInSeconds'', JString ''42'')])\<rparr>"
  let ?r4 = "\<lparr>ok = True, data = Some (JObject [(''synced'', JNumber (Finite 3))])\<rparr>"
  let ?r5 = "\<lparr>ok = False, data = None\<rparr>"
  let ?k6 = "[(''nextCheckInSeconds'', JNumber (Finite (1131529406376837 / 2 ^ 50)))]"
  let ?r6 = "\<lparr>ok = True, data = Some (JObject ?k6)\<rparr>"
  let ?k7 = "[(''nextCheckInSeconds'', JNumber (Finite (2 ^ 1023)))]"
  let ?r7 = "\<lparr>ok = True, data = Some (JObject ?k7)\<rparr>"
  note positive = syncMembers_schedules_next_run [THEN conjunct2, THEN conjunct1, rule_format]
  have f1: "members_nextInterval ?r1 = Finite 42000"
  proof -
    have "ok ?r1 \<and> data ?r1 = Some (JObject [(''nextCheckInSeconds'', JNumber (Finite 42))]) \<and>
          map_of [(''nextCheckInSeconds'', JNumber (Finite 42))] ''nextCheckInSeconds''
            = Some (JNumber (Finite 42)) \<and>
          js_gt (Finite 42) (Finite 0)"
      by simp
    then have "members_nextInterval ?r1 = js_times (Finite 42) (Finite 1000)"
      by (rule positive)
    then show ?thesis by (simp only: times_42)
  qed
  have f2: "members_nextInterval ?r2 = Finite 300000"
    using syncMembers_schedules_next_run [of _ _ _ ?r2] by simp
  have f3: "members_nextInterval ?r3 = Finite 300000"
    using syncMembers_schedules_next_run [of _ _ _ ?r3] by simp
  have f4: "members_nextInterval ?r4 = Finite 300000"
    using syncMembers_schedules_next_run [of _ _ _ ?r4] by simp
  have f5: "members_nextInterval ?r5 = Finite 300000"
    using syncMembers_schedules_next_run [of _ _ _ ?r5] by simp
  have f6: "members_nextInterval ?r6 = Finite (8840073487319039 / 2 ^ 43)"
  proof -
    have "ok ?r6 \<and> data ?r6 = Some (JObject ?k6) \<and>
          map_of ?k6 ''nextCheckInSeconds'' = Some (JNumber (Finite (1131529406376837 / 2 ^ 50))) \<and>
          js_gt (Finite (1131529406376837 / 2 ^ 50)) (Finite 0)"
      by simp
    then have "members_nextInterval ?r6 =
        js_times (Finite (1131529406376837 / 2 ^ 50)) (Finite 1000)"
      by (rule positive)
    then show ?thesis by (simp only: times_1005)
  qed
  have f7: "members_nextInterval ?r7 = PosInfinity"
  proof -
    have "ok ?r7 \<and> data ?r7 = Some (JObject ?k7) \<and>
          map_of ?k7 ''nextCheckInSeconds'' = Some (JNumber (Finite (2 ^ 1023))) \<and>
          js_gt (Finite (2 ^ 1023)) (Finite 0)"
      by simp
    then have "members_nextInterval ?r7 = js_times (Finite (2 ^ 1023)) (Finite 1000)"
      by (rule positive)
    then show ?thesis by (simp only: times_overflow)
  qed
  show ?thesis by (intro conjI) (rule f1 f2 f3 f4 f5 f6 f7)+
qed

text \<open>
  Claim C10: a success whose \<open>nextCheckInSeconds\<close> is NaN (a value of type number)
  gets the default delay of 300000, because \<open>NaN > 0\<close> is false; and the delay given
  to \<open>setTimeout\<close>, the last effect of \<open>syncMembers\<close>, is never NaN.
\<close>

theorem syncMembers_delay_never_NaN:
  "(ok r \<and> data r = Some (JObject kvs) \<and>
      map_of kvs ''nextCheckInSeconds'' = Some (JNumber NaN) \<longrightarrow>
      members_nextInterval r = Finite 300000) \<and>
   members_nextInterval r \<noteq> NaN \<and>
   last (trace (syncMembers env url st0)) =
     SetTimeout_syncMembers (members_nextInterval (fst (postWithRetry env url ''members'' st0))) \<and>
   last (trace (syncMembers env url st0)) \<noteq> SetTimeout_syncMembers NaN"
proof -
  have never: "members_nextInterval x \<noteq> NaN" for x
    by (auto simp: members_nextInterval_cases DEFAULT_MEMBERS_INTERVAL_def positive_times_1000
             split: option.splits json_value.splits)
  have lst: "last (trace (syncMembers env url st0)) =
     SetTimeout_syncMembers (members_nextInterval (fst (postWithRetry env url ''members'' st0)))"
    using syncMembers_trace [of env url st0] by auto
  have "ok r \<and> data r = Some (JObject kvs) \<and>
      map_of kvs ''nextCheckInSeconds'' = Some (JNumber NaN) \<longrightarrow>
      members_nextInterval r = Finite 300000"
    by (simp add: members_nextInterval_cases DEFAULT_MEMBERS_INTERVAL_def)
  with never [of r] never [of "fst (postWithRetry env url ''members'' st0)"] lst
  show ?thesis by simp
qed

theorem syncMembers_delay_never_NaN_witness:
  "members_nextInterval
     \<lparr>ok = True, data = Some (JObject [(''nextCheckInSeconds'', JNumber NaN)])\<rparr>
     = Finite 300000 \<and>
   trace (syncMembers
     (tries (Resolves \<lparr>status = 200, statusText = ''OK'',
               json = Inr (JObject [(''nextCheckInSeconds'', JNumber NaN)])\<rparr>)
            (Rejects ''unused'') (Rejects ''unused''))
     ''http://dash/sync-members'' \<lparr>count = 0, trace = []\<rparr>)
     = [Fetch ''http://dash/sync-members'' ''members'',
        Log_members_synced (Finite 300000),
        SetTimeout_syncMembers (Finite 300000)]"
proof -
  have "members_nextInterval
     \<lparr>ok = True, data = Some (JObject [(''nextCheckInSeconds'', JNumber NaN)])\<rparr>
     = Finite 300000"
    using syncMembers_delay_never_NaN
      [of "\<lparr>ok = True, data = Some (JObject [(''nextCheckInSeconds'', JNumber NaN)])\<rparr>"
          "[(''nextCheckInSeconds'', JNumber NaN)]"]
    by simp
  then show ?thesis
    by (simp add: syncMembers_def data_truthy_def run_defs)
qed

section \<open>Start-up and exit codes\<close>

text \<open>
  Claim C7: when the secret or one of the two URLs is not set (absent, or empty), the
  module logs the line that names a value that is not set and exits with code 1, with
  no timer armed and no task run begun, hence before any fetch.
\<close>

theorem missing_configuration_exits_before_start:
  assumes "not_set (CRON_SECRET env) \<or> not_set (DASHBOARD_URL env) \<or> not_set (MEMBERS_URL env)"
  shows "exit_code (main env) = Some 1 \<and> timers (main env) = [] \<and> invoked (main env) = [] \<and>
         (\<exists>name. console (main env) = [Is_not_set name] \<and>
            (name = ''CRON_SECRET'' \<and> not_set (CRON_SECRET env) \<or>
             name = ''DASHBOARD_URL'' \<and> not_set (DASHBOARD_URL env) \<or>
             name = ''MEMBERS_URL'' \<and> not_set (MEMBERS_URL env)))"
  using assms by (auto simp: main_def initial_def exit_def console_write_def)

theorem missing_configuration_exits_before_start_witness:
  "not_set (CRON_SECRET \<lparr>DASHBOARD_URL = Some ''http://dash/sync-orders'',
       MEMBERS_URL = Some ''http://dash/sync-members'', CRON_SECRET = None\<rparr>) \<and>
   exit_code (main \<lparr>DASHBOARD_URL = Some ''http://dash/sync-orders'',
       MEMBERS_URL = Some ''http://dash/sync-members'', CRON_SECRET = None\<rparr>) = Some 1 \<and>
   console (main \<lparr>DASHBOARD_URL = Some ''http://dash/sync-orders'',
       MEMBERS_URL = Some ''http://dash/sync-members'', CRON_SECRET = None\<rparr>)
     = [Is_not_set ''CRON_SECRET''] \<and>
   timers (main \<lparr>DASHBOARD_URL = Some ''http://dash/sync-orders'',
       MEMBERS_URL = Some ''http://dash/sync-members'', CRON_SECRET = None\<rparr>) = [] \<and>
   invoked (main \<lparr>DASHBOARD_URL = Some ''http://dash/sync-orders'',
       MEMBERS_URL = Some ''http://dash/sync-members'', CRON_SECRET = None\<rparr>) = []"
proof -
  let ?env = "\<lparr>DASHBOARD_URL = Some ''http://dash/sync-orders'',
       MEMBERS_URL = Some ''http://dash/sync-members'', CRON_SECRET = None\<rparr>"
  have h: "not_set (CRON_SECRET ?env) \<or> not_set (DASHBOARD_URL ?env) \<or> not_set (MEMBERS_URL ?env)"
    by (simp add: not_set_def)
  from missing_configuration_exits_before_start [OF h] show ?thesis
    by (simp add: not_set_def)
qed

text \<open>
  Claim C8: in a process that started and has not exited, SIGINT and SIGTERM log the
  signal, leave no timer armed and exit with code 0; an unhandled rejection and an
  uncaught exception exit with code 1; and so does a start with a value that is not
  set.
\<close>

theorem process_exit_codes:
  "(running env p \<longrightarrow>
      exit_code (handle SIGINT p) = Some 0 \<and> timers (handle SIGINT p) = [] \<and>
      console (handle SIGINT p) = console p @ [Received_shutting_down ''SIGINT''] \<and>
      exit_code (handle SIGTERM p) = Some 0 \<and> timers (handle SIGTERM p) = [] \<and>
      console (handle SIGTERM p) = console p @ [Received_shutting_down ''SIGTERM'']) \<and>
   exit_code (handle (UnhandledRejection reason) q) = Some 1 \<and>
   exit_code (handle (UncaughtException error) q) = Some 1 \<and>
   (not_set (CRON_SECRET cfg) \<or> not_set (DASHBOARD_URL cfg) \<or> not_set (MEMBERS_URL cfg) \<longrightarrow>
      exit_code (main cfg) = Some 1)"
proof (intro conjI impI)
  assume "running env p"
  then have t: "timers_tracked p" by (rule running_timers_tracked)
  show "exit_code (handle SIGINT p) = Some 0" "exit_code (handle SIGTERM p) = Some 0"
    by (simp_all add: shutdown_exit_code)
  show "timers (handle SIGINT p) = []" "timers (handle SIGTERM p) = []"
    using t by (simp_all add: shutdown_timers)
  show "console (handle SIGINT p) = console p @ [Received_shutting_down ''SIGINT'']"
    "console (handle SIGTERM p) = console p @ [Received_shutting_down ''SIGTERM'']"
    by (simp_all add: shutdown_console)
next
  show "exit_code (handle (UnhandledRejection reason) q) = Some 1"
    by (simp add: exit_def)
  show "exit_code (handle (UncaughtException error) q) = Some 1"
    by (simp add: exit_def)
next
  assume "not_set (CRON_SECRET cfg) \<or> not_set (DASHBOARD_URL cfg) \<or> not_set (MEMBERS_URL cfg)"
  then show "exit_code (main cfg) = Some 1"
    by (auto simp: main_def exit_def)
qed

theorem process_exit_codes_witness:
  "timers (members_rearms (main \<lparr>DASHBOARD_URL = Some ''http://dash/sync-orders'',
       MEMBERS_URL = Some ''http://dash/sync-members'', CRON_SECRET = Some ''s3cret''\<rparr>)) = [1, 0] \<and>
   exit_code (handle SIGTERM (members_rearms (main \<lparr>DASHBOARD_URL = Some ''http://dash/sync-orders'',
       MEMBERS_URL = Some ''http://dash/sync-members'', CRON_SECRET = Some ''s3cret''\<rparr>))) = Some 0 \<and>
   timers (handle SIGTERM (members_rearms (main \<lparr>DASHBOARD_URL = Some ''http://dash/sync-orders'',
       MEMBERS_URL = Some ''http://dash/sync-members'', CRON_SECRET = Some ''s3cret''\<rparr>))) = [] \<and>
   exit_code (handle (UncaughtException ''TypeError'')
     (main \<lparr>DASHBOARD_URL = Some ''http://dash/sync-orders'',
       MEMBERS_URL = Some ''http://dash/sync-members'', CRON_SECRET = Some ''s3cret''\<rparr>)) = Some 1 \<and>
   exit_code (main \<lparr>DASHBOARD_URL = None,
       MEMBERS_URL = Some ''http://dash/sync-members'', CRON_SECRET = Some ''s3cret''\<rparr>) = Some 1"
proof -
  let ?env = "\<lparr>DASHBOARD_URL = Some ''http://dash/sync-orders'',
       MEMBERS_URL = Some ''http://dash/sync-members'', CRON_SECRET = Some ''s3cret''\<rparr>"
  let ?cfg = "\<lparr>DASHBOARD_URL = None,
       MEMBERS_URL = Some ''http://dash/sync-members'', CRON_SECRET = Some ''s3cret''\<rparr>"
  have m: "main ?env = \<lparr>console = [], timers = [0], next_timer = 1, ordersIntervalId = Some 0,
     membersTimeoutId = None, invoked = [''orders'', ''members''], members_in_flight = True,
     exit_code = None\<rparr>"
    by (rule main_complete) (simp_all add: not_set_def)
  have "running ?env (main ?env)"
    by (rule running.started) (simp add: m)
  then have run: "running ?env (members_rearms (main ?env))"
    by (rule running.members_done) (simp add: m)
  have h: "not_set (CRON_SECRET ?cfg) \<or> not_set (DASHBOARD_URL ?cfg) \<or> not_set (MEMBERS_URL ?cfg)"
    by (simp add: not_set_def)
  have t: "timers (members_rearms (main ?env)) = [1, 0]"
    by (simp add: m members_rearms_def)
  from process_exit_codes [of ?env "members_rearms (main ?env)" "''unused''" "main ?env"
      "''TypeError''" ?cfg] run h t
  show ?thesis by (simp add: not_set_def)
qed

end
